theory Spec2Isabelle
  imports Main "HOL-Library.Char_ord"
begin

section \<open>Text primitives\<close>

text \<open>
  The scripts work on Python \<open>str\<close> values. A text is modelled as a \<open>string\<close> whose
  characters are the code points below 256, one \<open>char\<close> per code point.
\<close>

definition isspace :: "char \<Rightarrow> bool" where
  \<comment> \<open>\<open>str.isspace\<close> on one code point below 256; the class \<open>\s\<close> of \<open>re\<close> is the same set.\<close>
  "isspace c =
     (let n = (of_char c :: nat)
      in (9 \<le> n \<and> n \<le> 13) \<or> (28 \<le> n \<and> n \<le> 32) \<or> n = 133 \<or> n = 160)"

definition strip :: "string \<Rightarrow> string" where
  \<comment> \<open>\<open>str.strip()\<close>: leading and trailing whitespace removed.\<close>
  "strip s = rev (dropWhile isspace (rev (dropWhile isspace s)))"

fun startswith :: "string \<Rightarrow> string \<Rightarrow> bool" where
  "startswith s [] = True"
| "startswith [] (p # ps) = False"
| "startswith (c # cs) (p # ps) = (c = p \<and> startswith cs ps)"

definition endswith :: "string \<Rightarrow> string \<Rightarrow> bool" where
  "endswith s p = startswith (rev s) (rev p)"

fun contains :: "string \<Rightarrow> string \<Rightarrow> bool" where
  \<comment> \<open>\<open>p in s\<close> on strings: \<open>p\<close> occurs as a contiguous substring of \<open>s\<close>.\<close>
  "contains [] p = (p = [])"
| "contains (c # cs) p = (startswith (c # cs) p \<or> contains cs p)"

section \<open>The argument tokenizer of \<open>fix_logger_call\<close>\<close>

record tok_state =
  arg_parts :: "string list"
  current_arg :: string
  paren_depth :: int
  brace_depth :: int
  in_string :: bool
  string_char :: "char option"

definition tok_init :: tok_state where
  "tok_init = \<lparr> arg_parts = [], current_arg = [], paren_depth = 0, brace_depth = 0,
                in_string = False, string_char = None \<rparr>"

definition is_quote :: "char \<Rightarrow> bool" where
  "is_quote c = (c = CHR ''\"'' \<or> c = CHR 0x27 \<or> c = CHR ''`'')"

definition tok_step :: "tok_state \<Rightarrow> char \<Rightarrow> tok_state" where
  \<comment> \<open>One iteration of \<open>for char in args\<close>; the comma branch ends with \<open>continue\<close>,
      every other branch falls through to \<open>current_arg += char\<close>.\<close>
  "tok_step st c =
     (if is_quote c \<and> \<not> in_string st then
        st\<lparr> in_string := True, string_char := Some c, current_arg := current_arg st @ [c] \<rparr>
      else if Some c = string_char st \<and> in_string st then
        st\<lparr> in_string := False, string_char := None, current_arg := current_arg st @ [c] \<rparr>
      else if c = CHR ''('' \<and> \<not> in_string st then
        st\<lparr> paren_depth := paren_depth st + 1, current_arg := current_arg st @ [c] \<rparr>
      else if c = CHR '')'' \<and> \<not> in_string st then
        st\<lparr> paren_depth := paren_depth st - 1, current_arg := current_arg st @ [c] \<rparr>
      else if c = CHR ''{'' \<and> \<not> in_string st then
        st\<lparr> brace_depth := brace_depth st + 1, current_arg := current_arg st @ [c] \<rparr>
      else if c = CHR ''}'' \<and> \<not> in_string st then
        st\<lparr> brace_depth := brace_depth st - 1, current_arg := current_arg st @ [c] \<rparr>
      else if c = CHR '','' \<and> \<not> in_string st \<and> paren_depth st = 0 \<and> brace_depth st = 0 then
        st\<lparr> arg_parts := arg_parts st @ [strip (current_arg st)], current_arg := [] \<rparr>
      else
        st\<lparr> current_arg := current_arg st @ [c] \<rparr>)"

definition tok_finish :: "tok_state \<Rightarrow> string list" where
  \<comment> \<open>\<open>if current_arg.strip(): arg_parts.append(current_arg.strip())\<close>\<close>
  "tok_finish st =
     (if strip (current_arg st) \<noteq> [] then arg_parts st @ [strip (current_arg st)]
      else arg_parts st)"

definition split_args :: "string \<Rightarrow> string list" where
  "split_args args = tok_finish (foldl tok_step tok_init args)"

section \<open>Parameter-name detection of the params migration\<close>

definition detect_param_name :: "string \<Rightarrow> string" where
  "detect_param_name content =
     (if contains content ''[trackingNumber]'' \<or> contains content ''trackingNumber''
      then ''trackingNumber'' else ''id'')"

section \<open>The fragment of Python's \<open>re\<close> that the scripts use\<close>

text \<open>
  The patterns of the two scripts are built from literals, character classes, greedy and
  lazy repetition of a single-character item, optional groups, alternation, capturing
  groups, \<open>\b\<close>, \<open>^\<close> and \<open>$\<close>. The matcher returns every way a pattern can match at
  a position, in the order in which \<open>re\<close>'s backtracking tries them, so the head of the
  list is the match \<open>re\<close> reports.
\<close>

datatype citem =
    One char                       \<comment> \<open>a single character\<close>
  | Range char char                \<comment> \<open>\<open>lo-hi\<close>\<close>

datatype cclass =
    CSpace                         \<comment> \<open>\<open>\s\<close>\<close>
  | CWord                          \<comment> \<open>\<open>\w\<close>\<close>
  | CDot                           \<comment> \<open>\<open>.\<close> without \<open>re.DOTALL\<close>\<close>
  | CAny                           \<comment> \<open>\<open>.\<close> under \<open>re.DOTALL\<close>\<close>
  | CSet "citem list"              \<comment> \<open>\<open>[...]\<close>\<close>
  | CNot "citem list"              \<comment> \<open>\<open>[^...]\<close>\<close>

datatype regex =
    Lit string
  | Cls cclass
  | Star cclass                    \<comment> \<open>\<open>x*\<close>\<close>
  | LazyStar cclass                \<comment> \<open>\<open>x*?\<close>\<close>
  | Opt regex                      \<comment> \<open>\<open>(?:r)?\<close>\<close>
  | Seq regex regex
  | Alt regex regex
  | Group nat regex
  | WordB                          \<comment> \<open>\<open>\b\<close>\<close>
  | Bol                            \<comment> \<open>\<open>^\<close>\<close>
  | Eol                            \<comment> \<open>\<open>$\<close>\<close>

definition Plus :: "cclass \<Rightarrow> regex" where
  \<comment> \<open>\<open>x+\<close>\<close>
  "Plus k = Seq (Cls k) (Star k)"

fun seqs :: "regex list \<Rightarrow> regex" where
  "seqs [] = Lit []"
| "seqs [r] = r"
| "seqs (r # rs) = Seq r (seqs rs)"

definition isword :: "char \<Rightarrow> bool" where
  \<comment> \<open>\<open>\w\<close> of a \<open>str\<close> pattern on one code point below 256: alphanumeric or underscore.\<close>
  "isword c =
     (let n = (of_char c :: nat)
      in (48 \<le> n \<and> n \<le> 57) \<or> (65 \<le> n \<and> n \<le> 90) \<or> n = 95 \<or> (97 \<le> n \<and> n \<le> 122) \<or>
         n = 170 \<or> n = 178 \<or> n = 179 \<or> n = 181 \<or> n = 185 \<or> n = 186 \<or>
         (188 \<le> n \<and> n \<le> 190) \<or> (192 \<le> n \<and> n \<le> 214) \<or> (216 \<le> n \<and> n \<le> 246) \<or>
         (248 \<le> n \<and> n \<le> 255))"

fun item_ok :: "citem \<Rightarrow> char \<Rightarrow> bool" where
  "item_ok (One d) c = (c = d)"
| "item_ok (Range lo hi) c = ((of_char lo :: nat) \<le> of_char c \<and> (of_char c :: nat) \<le> of_char hi)"

definition in_items :: "citem list \<Rightarrow> char \<Rightarrow> bool" where
  "in_items items c = list_ex (\<lambda>it. item_ok it c) items"

fun cls_ok :: "cclass \<Rightarrow> char \<Rightarrow> bool" where
  "cls_ok CSpace c = isspace c"
| "cls_ok CWord c = isword c"
| "cls_ok CDot c = (c \<noteq> CHR 0x0A)"
| "cls_ok CAny c = True"
| "cls_ok (CSet items) c = in_items items c"
| "cls_ok (CNot items) c = (\<not> in_items items c)"

text \<open>
  A position in the subject: the offset, the character before it (\<open>None\<close> at offset 0)
  and the text from it on. Captures are \<open>(group, start, end)\<close>, latest first.
\<close>

type_synonym mpos = "nat \<times> char option \<times> string"
type_synonym caps = "(nat \<times> nat \<times> nat) list"

fun runs :: "cclass \<Rightarrow> mpos \<Rightarrow> mpos list" where
  \<comment> \<open>The positions after 0, 1, 2, ... characters of the class, shortest first.\<close>
  "runs k (i, prev, []) = [(i, prev, [])]"
| "runs k (i, prev, c # cs) =
     (i, prev, c # cs) # (if cls_ok k c then runs k (Suc i, Some c, cs) else [])"

fun lit_at :: "string \<Rightarrow> mpos \<Rightarrow> mpos option" where
  "lit_at [] p = Some p"
| "lit_at (x # xs) (i, prev, []) = None"
| "lit_at (x # xs) (i, prev, c # cs) = (if x = c then lit_at xs (Suc i, Some c, cs) else None)"

definition at_word :: "char option \<Rightarrow> bool" where
  "at_word co = (case co of None \<Rightarrow> False | Some c \<Rightarrow> isword c)"

fun rx :: "regex \<Rightarrow> mpos \<times> caps \<Rightarrow> (mpos \<times> caps) list" where
  "rx (Lit s) (p, g) = (case lit_at s p of None \<Rightarrow> [] | Some p' \<Rightarrow> [(p', g)])"
| "rx (Cls k) ((i, prev, rest), g) =
     (case rest of [] \<Rightarrow> [] | c # cs \<Rightarrow> if cls_ok k c then [((Suc i, Some c, cs), g)] else [])"
| "rx (Star k) (p, g) = map (\<lambda>p'. (p', g)) (rev (runs k p))"
| "rx (LazyStar k) (p, g) = map (\<lambda>p'. (p', g)) (runs k p)"
| "rx (Opt r) pg = rx r pg @ [pg]"
| "rx (Seq r1 r2) pg = concat (map (rx r2) (rx r1 pg))"
| "rx (Alt r1 r2) pg = rx r1 pg @ rx r2 pg"
| "rx (Group n r) ((i, prev, rest), g) =
     map (\<lambda>((j, prev', rest'), g'). ((j, prev', rest'), (n, i, j) # g')) (rx r ((i, prev, rest), g))"
| "rx WordB ((i, prev, rest), g) =
     (if at_word prev \<noteq> at_word (case rest of [] \<Rightarrow> None | c # _ \<Rightarrow> Some c)
      then [((i, prev, rest), g)] else [])"
| "rx Bol ((i, prev, rest), g) = (if prev = None then [((i, prev, rest), g)] else [])"
| "rx Eol ((i, prev, rest), g) =
     (if rest = [] \<or> rest = [CHR 0x0A] then [((i, prev, rest), g)] else [])"

record match =
  m_text :: string        \<comment> \<open>the subject from the start of the match on\<close>
  m_start :: nat
  m_end :: nat
  m_caps :: caps

definition match_at :: "regex \<Rightarrow> mpos \<Rightarrow> match option" where
  \<comment> \<open>The match of the pattern starting exactly at the position, if there is one.\<close>
  "match_at r p =
     (case rx r (p, []) of
        [] \<Rightarrow> None
      | ((j, _, _), g) # _ \<Rightarrow>
          Some \<lparr> m_text = snd (snd p), m_start = fst p, m_end = j, m_caps = g \<rparr>)"

fun search_from :: "regex \<Rightarrow> mpos \<Rightarrow> match option" where
  "search_from r (i, prev, []) = match_at r (i, prev, [])"
| "search_from r (i, prev, c # cs) =
     (case match_at r (i, prev, c # cs) of
        Some m \<Rightarrow> Some m
      | None \<Rightarrow> search_from r (Suc i, Some c, cs))"

definition re_match :: "regex \<Rightarrow> string \<Rightarrow> match option" where
  \<comment> \<open>\<open>re.match\<close>: at the start of the string only.\<close>
  "re_match r s = match_at r (0, None, s)"

definition re_search :: "regex \<Rightarrow> string \<Rightarrow> match option" where
  \<comment> \<open>\<open>re.search\<close>: the leftmost position where the pattern matches.\<close>
  "re_search r s = search_from r (0, None, s)"

definition span_of :: "match \<Rightarrow> nat \<Rightarrow> (nat \<times> nat) option" where
  \<comment> \<open>\<open>m.span(n)\<close>\<close>
  "span_of m n = (if n = 0 then Some (m_start m, m_end m) else map_of (m_caps m) n)"

definition group_of :: "match \<Rightarrow> nat \<Rightarrow> string" where
  \<comment> \<open>\<open>m.group(n)\<close>; a group that took no part in the match (\<open>None\<close> in Python) reads as
      the empty string, which is also what a replacement template substitutes for it.\<close>
  "group_of m n =
     (case span_of m n of
        None \<Rightarrow> []
      | Some (a, b) \<Rightarrow> take (b - a) (drop (a - m_start m) (m_text m)))"

definition match_nonempty_at :: "regex \<Rightarrow> mpos \<Rightarrow> match option" where
  \<comment> \<open>The first match at the position that is not empty: what \<open>re\<close> looks for at the
      position where the match before it was empty.\<close>
  "match_nonempty_at r p =
     (case filter (\<lambda>((j, _, _), g). fst p < j) (rx r (p, [])) of
        [] \<Rightarrow> None
      | ((j, _, _), g) # _ \<Rightarrow>
          Some \<lparr> m_text = snd (snd p), m_start = fst p, m_end = j, m_caps = g \<rparr>)"

function sub_loop ::
  "regex \<Rightarrow> (match \<Rightarrow> string) \<Rightarrow> nat option \<Rightarrow> bool \<Rightarrow> mpos \<Rightarrow> string" where
  "sub_loop r repl count must_advance (i, prev, rest) =
     (if count = Some 0 then rest
      else case (if must_advance then match_nonempty_at r (i, prev, rest)
                 else match_at r (i, prev, rest)) of
        None \<Rightarrow>
          (case rest of [] \<Rightarrow> []
           | c # cs \<Rightarrow> c # sub_loop r repl count False (Suc i, Some c, cs))
      | Some m \<Rightarrow>
          (let count' = map_option (\<lambda>k. k - 1) count
           in case m_end m - i of
                0 \<Rightarrow>
                  if must_advance then repl m @ rest
                  else repl m @ sub_loop r repl count' True (i, prev, rest)
              | Suc n \<Rightarrow>
                  if rest = [] then repl m
                  else repl m @ sub_loop r repl count' False
                                  (Suc (i + n), Some (rest ! n), drop (Suc n) rest)))"
  by pat_completeness auto
termination
  by (relation "measure (\<lambda>(r, repl, count, must_advance, i, prev, rest).
                   2 * length rest + (if must_advance then 0 else 1))")
     (auto simp: neq_Nil_conv)

definition re_sub :: "regex \<Rightarrow> (match \<Rightarrow> string) \<Rightarrow> nat option \<Rightarrow> string \<Rightarrow> string" where
  \<comment> \<open>\<open>re.sub(pattern, repl, string, count)\<close>; \<open>None\<close> is Python's \<open>count=0\<close>, no limit.
      Matches are replaced from left to right; after an empty match the search goes on at
      the same position for a match that is not empty.\<close>
  "re_sub r repl count s = sub_loop r repl count False (0, None, s)"

datatype titem = T string | G nat

definition template :: "titem list \<Rightarrow> match \<Rightarrow> string" where
  \<comment> \<open>A replacement string with group references \<open>\1\<close>, \<open>\2\<close>, ...\<close>
  "template items m = concat (map (\<lambda>t. case t of T s \<Rightarrow> s | G n \<Rightarrow> group_of m n) items)"

definition const_repl :: "string \<Rightarrow> match \<Rightarrow> string" where
  \<comment> \<open>A replacement string without group references.\<close>
  "const_repl s m = s"

definition ws :: regex where
  \<comment> \<open>\<open>\s*\<close>\<close>
  "ws = Star CSpace"

definition ws1 :: regex where
  \<comment> \<open>\<open>\s+\<close>\<close>
  "ws1 = Plus CSpace"

fun find_from :: "char \<Rightarrow> string \<Rightarrow> nat \<Rightarrow> nat option" where
  \<comment> \<open>\<open>s.find(c, start)\<close>, for a string given as its suffix from \<open>start\<close>; \<open>None\<close> is \<open>-1\<close>.\<close>
  "find_from c [] i = None"
| "find_from c (x # xs) i = (if x = c then Some i else find_from c xs (Suc i))"

definition find_char :: "string \<Rightarrow> char \<Rightarrow> nat \<Rightarrow> nat option" where
  "find_char s c start = find_from c (drop start s) start"

fun join :: "string \<Rightarrow> string list \<Rightarrow> string" where
  \<comment> \<open>\<open>sep.join(xs)\<close>\<close>
  "join sep [] = []"
| "join sep [x] = x"
| "join sep (x # xs) = x @ sep @ join sep xs"

fun str_nat :: "nat \<Rightarrow> string" where
  \<comment> \<open>The decimal digits an f-string writes for a non-negative integer.\<close>
  "str_nat n =
     (if n < 10 then [char_of (48 + n)] else str_nat (n div 10) @ [char_of (48 + n mod 10)])"

declare str_nat.simps [simp del]

section \<open>\<open>scripts/fix-logger-calls.py\<close>\<close>

definition LOG_CALL :: regex where
  \<comment> \<open>\<open>log\.(error|warn|info|debug)\(([^)]+(?:\([^)]*\))?[^)]*)\)\<close>\<close>
  "LOG_CALL =
     seqs [Lit ''log.'',
           Group 1 (Alt (Lit ''error'') (Alt (Lit ''warn'') (Alt (Lit ''info'') (Lit ''debug'')))),
           Lit ''('',
           Group 2 (seqs [Plus (CNot [One CHR '')'']),
                          Opt (seqs [Lit ''('', Star (CNot [One CHR '')'']), Lit '')'']),
                          Star (CNot [One CHR '')''])]),
           Lit '')'']"

definition IDENT :: regex where
  \<comment> \<open>\<open>^[a-zA-Z_][a-zA-Z0-9_]*$\<close>\<close>
  "IDENT =
     seqs [Bol,
           Cls (CSet [Range CHR ''a'' CHR ''z'', Range CHR ''A'' CHR ''Z'', One CHR ''_'']),
           Star (CSet [Range CHR ''a'' CHR ''z'', Range CHR ''A'' CHR ''Z'', Range CHR ''0'' CHR ''9'',
                       One CHR ''_'']),
           Eol]"

fun metadata_entries :: "nat \<Rightarrow> string list \<Rightarrow> string list" where
  \<comment> \<open>\<open>for i, arg in enumerate(rest_args)\<close>, from index \<open>i\<close> on\<close>
  "metadata_entries i [] = []"
| "metadata_entries i (arg # rest) =
     (let arg = strip arg
      in (if re_match IDENT arg \<noteq> None then arg
          else ''arg'' @ str_nat (i + 1) @ '': '' @ arg) # metadata_entries (Suc i) rest)"

definition fix_logger_call :: "match \<Rightarrow> string" where
  "fix_logger_call m =
     (let level = group_of m 1;
          args = group_of m 2;
          arg_parts = split_args args
      in if length arg_parts \<le> 1 then group_of m 0
         else if length arg_parts = 2 \<and>
                 startswith (strip (arg_parts ! 1)) ''{'' \<and> endswith (strip (arg_parts ! 1)) ''}''
         then group_of m 0
         else
           let message = arg_parts ! 0;
               rest_args = drop 1 arg_parts;
               metadata_obj = ''{ '' @ join '', '' (metadata_entries 0 rest_args) @ '' }''
           in ''log.'' @ level @ ''('' @ message @ '', '' @ metadata_obj @ '')'')"

definition fix_text :: "string \<Rightarrow> string" where
  \<comment> \<open>\<open>re.sub(pattern, fix_logger_call, content)\<close>\<close>
  "fix_text content = re_sub LOG_CALL fix_logger_call None content"

section \<open>Files\<close>

text \<open>
  What the drivers see of the file system: a file has a text, and reading it fails when
  it is missing, unreadable or not valid UTF-8; writing fails when it is not writable.
  Every successful write is also recorded, so that a write of unchanged text would show.
\<close>

datatype io_error = FileNotFoundError | PermissionError | UnicodeDecodeError

record fnode =
  f_text :: string
  f_decodable :: bool
  f_readable :: bool
  f_writable :: bool

record world =
  files :: "string \<rightharpoonup> fnode"
  write_log :: "(string \<times> string) list"

definition path_exists :: "world \<Rightarrow> string \<Rightarrow> bool" where
  "path_exists w p = (files w p \<noteq> None)"

definition read_text :: "world \<Rightarrow> string \<Rightarrow> io_error + string" where
  \<comment> \<open>\<open>with open(p, 'r', encoding='utf-8') as f: f.read()\<close>\<close>
  "read_text w p =
     (case files w p of
        None \<Rightarrow> Inl FileNotFoundError
      | Some f \<Rightarrow>
          if \<not> f_readable f then Inl PermissionError
          else if \<not> f_decodable f then Inl UnicodeDecodeError
          else Inr (f_text f))"

definition write_text :: "world \<Rightarrow> string \<Rightarrow> string \<Rightarrow> io_error + world" where
  \<comment> \<open>\<open>with open(p, 'w', encoding='utf-8') as f: f.write(s)\<close>\<close>
  "write_text w p s =
     (case files w p of
        None \<Rightarrow>
          Inr (w\<lparr> files := (files w)(p \<mapsto> \<lparr> f_text = s, f_decodable = True, f_readable = True,
                                               f_writable = True \<rparr>),
                   write_log := write_log w @ [(p, s)] \<rparr>)
      | Some f \<Rightarrow>
          if \<not> f_writable f then Inl PermissionError
          else Inr (w\<lparr> files := (files w)(p \<mapsto> f\<lparr> f_text := s, f_decodable := True \<rparr>),
                        write_log := write_log w @ [(p, s)] \<rparr>))"

definition fix_file_try :: "world \<Rightarrow> string \<Rightarrow> io_error + (bool \<times> world)" where
  \<comment> \<open>The body of the \<open>try\<close> block of \<open>fix_file\<close>.\<close>
  "fix_file_try w file_path =
     (case read_text w file_path of
        Inl e \<Rightarrow> Inl e
      | Inr original_content \<Rightarrow>
          let content = fix_text original_content
          in if content \<noteq> original_content then
               (case write_text w file_path content of
                  Inl e \<Rightarrow> Inl e
                | Inr w' \<Rightarrow> Inr (True, w'))
             else Inr (False, w))"

definition fix_file :: "world \<Rightarrow> string \<Rightarrow> bool \<times> world" where
  \<comment> \<open>\<open>except Exception\<close>: the error is printed and \<open>False\<close> returned.\<close>
  "fix_file w file_path =
     (case fix_file_try w file_path of Inl e \<Rightarrow> (False, w) | Inr r \<Rightarrow> r)"

fun fix_loop :: "string list \<Rightarrow> nat \<times> world \<Rightarrow> nat \<times> world" where
  \<comment> \<open>The \<open>for\<close> loop of \<open>main\<close> over the files that \<open>tsc\<close> reported, threading
      \<open>fixed_count\<close>.\<close>
  "fix_loop [] (fixed_count, w) = (fixed_count, w)"
| "fix_loop (file_path # rest) (fixed_count, w) =
     (if \<not> path_exists w file_path then fix_loop rest (fixed_count, w)
      else case fix_file w file_path of
             (True, w') \<Rightarrow> fix_loop rest (fixed_count + 1, w')
           | (False, w') \<Rightarrow> fix_loop rest (fixed_count, w'))"

section \<open>\<open>scripts/migrate-params.py\<close>\<close>

definition already_migrated :: "string \<Rightarrow> bool" where
  "already_migrated content =
     (contains content ''use(params)'' \<or> contains content ''const resolvedParams = use(params)'')"

definition PARAMS_BAG :: regex where
  \<comment> \<open>\<open>params:\s*\{\<close>\<close>
  "PARAMS_BAG = seqs [Lit ''params:'', ws, Lit ''{'']"

definition PARAMS_DESTRUCT :: regex where
  \<comment> \<open>\<open>}\s*{\s*params\s*}:\<close>\<close>
  "PARAMS_DESTRUCT = seqs [Lit ''}'', ws, Lit ''{'', ws, Lit ''params'', ws, Lit ''}:'']"

definition PARAMS_FUNCTION :: regex where
  \<comment> \<open>\<open>function.*\{\s*params\s*}:\<close>\<close>
  "PARAMS_FUNCTION = seqs [Lit ''function'', Star CDot, Lit ''{'', ws, Lit ''params'', ws, Lit ''}:'']"

definition uses_params_prop :: "string \<Rightarrow> bool" where
  "uses_params_prop content =
     (re_search PARAMS_BAG content \<noteq> None \<or>
      re_search PARAMS_DESTRUCT content \<noteq> None \<or>
      re_search PARAMS_FUNCTION content \<noteq> None)"

definition quote2 :: cclass where
  \<comment> \<open>\<open>["\']\<close>\<close>
  "quote2 = CSet [One CHR ''\"'', One (CHR 0x27)]"

definition USE_IMPORTED :: regex where
  \<comment> \<open>\<open>import\s*\{[^}]*\buse\b[^}]*\}\s*from\s*["\']react["\']\<close>\<close>
  "USE_IMPORTED =
     seqs [Lit ''import'', ws, Lit ''{'', Star (CNot [One CHR ''}'']), WordB, Lit ''use'', WordB,
           Star (CNot [One CHR ''}'']), Lit ''}'', ws, Lit ''from'', ws,
           Cls quote2, Lit ''react'', Cls quote2]"

definition REACT_IMPORT :: regex where
  \<comment> \<open>\<open>(import\s*\{)([^}]*)(}\s*from\s*["\']react["\'])\<close>\<close>
  "REACT_IMPORT =
     seqs [Group 1 (seqs [Lit ''import'', ws, Lit ''{'']),
           Group 2 (Star (CNot [One CHR ''}''])),
           Group 3 (seqs [Lit ''}'', ws, Lit ''from'', ws, Cls quote2, Lit ''react'', Cls quote2])]"

definition add_use_import :: "string \<Rightarrow> string" where
  \<comment> \<open>Step 1: add \<open>use\<close> to the React imports if not present.\<close>
  "add_use_import content =
     (if contains content ''from \"react\"'' \<or> contains content (''from '' @ [CHR 0x27] @ ''react'' @ [CHR 0x27])
      then if re_search USE_IMPORTED content = None
           then re_sub REACT_IMPORT (template [G 1, T '' use, '', G 2, G 3]) (Some 1) content
           else content
      else content)"

definition PARAMS_TYPE :: "string \<Rightarrow> regex" where
  \<comment> \<open>\<open>params:\s*\{\s*NAME:\s*string\s*\}\<close>\<close>
  "PARAMS_TYPE param_name =
     seqs [Lit ''params:'', ws, Lit ''{'', ws, Lit (param_name @ '':''), ws, Lit ''string'', ws, Lit ''}'']"

definition PROP_FUNC :: regex where
  \<comment> \<open>\<open>(export\s+default\s+function\s+\w+\s*\([^)]*params[^)]*\)\s*\{)\<close>\<close>
  "PROP_FUNC =
     Group 1 (seqs [Lit ''export'', ws1, Lit ''default'', ws1, Lit ''function'', ws1, Plus CWord, ws,
                    Lit ''('', Star (CNot [One CHR '')'']), Lit ''params'', Star (CNot [One CHR '')'']),
                    Lit '')'', ws, Lit ''{''])"

definition WORD :: "string \<Rightarrow> regex" where
  \<comment> \<open>\<open>\bTEXT\b\<close>\<close>
  "WORD text = seqs [WordB, Lit text, WordB]"

definition unwrap_statement :: "string \<Rightarrow> string" where
  \<comment> \<open>\<open>f'{indent}const {{ {param_name} }} = use(params);\n'\<close>\<close>
  "unwrap_statement param_name = ''  const { '' @ param_name @ '' } = use(params);'' @ [CHR 0x0A]"

definition insert_unwrap :: "string \<Rightarrow> nat \<Rightarrow> string \<Rightarrow> string" where
  \<comment> \<open>The unwrap statement goes after the first newline at or after \<open>func_end\<close>; without
      such a newline the text is left as it is.\<close>
  "insert_unwrap param_name func_end content =
     (case find_char content (CHR 0x0A) func_end of
        None \<Rightarrow> content
      | Some next_newline \<Rightarrow>
          take (next_newline + 1) content @ unwrap_statement param_name @
          drop (next_newline + 1) content)"

definition migrate_params_prop :: "string \<Rightarrow> string \<Rightarrow> string" where
  \<comment> \<open>Step 2: the params prop pattern.\<close>
  "migrate_params_prop param_name content0 =
     (let content = re_sub (PARAMS_TYPE param_name)
                      (const_repl (''params: Promise<{ '' @ param_name @ '': string }>'')) None content0
      in case re_search PROP_FUNC content of
           None \<Rightarrow> content
         | Some func_match \<Rightarrow>
             let content = insert_unwrap param_name (m_end func_match) content
             in re_sub (WORD (''params.'' @ param_name)) (const_repl param_name) None content)"

definition HOOK_IMPORT_A :: regex where
  \<comment> \<open>\<open>,?\s*useParams\s*\<close>\<close>
  "HOOK_IMPORT_A = seqs [Opt (Lit '',''), ws, Lit ''useParams'', ws]"

definition HOOK_IMPORT_B :: regex where
  \<comment> \<open>\<open>useParams\s*,?\s*\<close>\<close>
  "HOOK_IMPORT_B = seqs [Lit ''useParams'', ws, Opt (Lit '',''), ws]"

definition HOOK_CALL :: regex where
  \<comment> \<open>\<open>const\s+params\s*=\s*useParams\(\);\s*\n\<close>\<close>
  "HOOK_CALL =
     seqs [Lit ''const'', ws1, Lit ''params'', ws, Lit ''='', ws, Lit ''useParams();'', ws,
           Lit [CHR 0x0A]]"

definition OLD_ID :: "string \<Rightarrow> string \<Rightarrow> regex" where
  \<comment> \<open>\<open>const\s+VAR\s*=\s*ACCESS\s+as\s+string;\s*\n\<close>, where \<open>ACCESS\<close> is the literal text
      of \<open>params\.id\<close> or \<open>params\?\.id\<close>\<close>
  "OLD_ID var access =
     seqs [Lit ''const'', ws1, Lit var, ws, Lit ''='', ws, Lit access, ws1, Lit ''as'', ws1,
           Lit ''string;'', ws, Lit [CHR 0x0A]]"

definition old_id_patterns :: "string \<Rightarrow> regex list" where
  "old_id_patterns param_name =
     [OLD_ID param_name (''params.'' @ param_name),
      OLD_ID param_name (''params?.'' @ param_name),
      OLD_ID ''taskId'' ''params.id'',
      OLD_ID ''orderId'' ''params.id'',
      OLD_ID ''paymentId'' ''params.id'',
      OLD_ID ''invoiceId'' ''params.id'',
      OLD_ID ''shipmentId'' ''params.id'',
      OLD_ID ''inspectionId'' ''params.id'',
      OLD_ID ''jobId'' ''params.id'',
      OLD_ID ''documentId'' ''params.id'']"

definition EXPORT_FUNC :: regex where
  \<comment> \<open>\<open>export\s+default\s+function\s+\w+\<close>\<close>
  "EXPORT_FUNC = seqs [Lit ''export'', ws1, Lit ''default'', ws1, Lit ''function'', ws1, Plus CWord]"

definition HOOK_FUNC :: regex where
  \<comment> \<open>\<open>(export\s+const\s+dynamic\s*=.*?;\s*\n+)?(export\s+default\s+function\s+\w+)\<close>
      under \<open>re.DOTALL\<close>\<close>
  "HOOK_FUNC =
     seqs [Opt (Group 1 (seqs [Lit ''export'', ws1, Lit ''const'', ws1, Lit ''dynamic'', ws, Lit ''='',
                               LazyStar CAny, Lit '';'', ws, Plus (CSet [One (CHR 0x0A)])])),
           Group 2 EXPORT_FUNC]"

definition HOOK_SIGNATURE :: regex where
  \<comment> \<open>\<open>(export\s+default\s+function\s+\w+)\(\)\<close>\<close>
  "HOOK_SIGNATURE = seqs [Group 1 EXPORT_FUNC, Lit ''()'']"

definition HOOK_FUNC_OPEN :: regex where
  \<comment> \<open>\<open>(export\s+default\s+function\s+\w+\([^)]*\)\s*\{)\<close>\<close>
  "HOOK_FUNC_OPEN =
     Group 1 (seqs [EXPORT_FUNC, Lit ''('', Star (CNot [One CHR '')'']), Lit '')'', ws, Lit ''{''])"

definition interface_code :: "string \<Rightarrow> string" where
  "interface_code param_name =
     ''interface PageProps {'' @ [CHR 0x0A] @
     ''  params: Promise<{ '' @ param_name @ '': string }>;'' @ [CHR 0x0A] @
     ''}'' @ [CHR 0x0A] @ [CHR 0x0A]"

definition id_replacements :: "(string \<times> string) list" where
  \<comment> \<open>The dictionary, in its insertion order, which is the order of iteration.\<close>
  "id_replacements =
     [(''taskId'', ''id''), (''orderId'', ''id''), (''paymentId'', ''id''), (''invoiceId'', ''id''),
      (''shipmentId'', ''id''), (''inspectionId'', ''id''), (''jobId'', ''id''),
      (''documentId'', ''id'')]"

definition add_page_props :: "string \<Rightarrow> string \<Rightarrow> string" where
  \<comment> \<open>The interface, the new signature and the unwrap statement, when the component function
      is found.\<close>
  "add_page_props param_name content0 =
     (case re_search HOOK_FUNC content0 of
        None \<Rightarrow> content0
      | Some func_match \<Rightarrow>
          let insert_pos = (case span_of func_match 2 of Some (a, b) \<Rightarrow> a | None \<Rightarrow> 0);
              content = take insert_pos content0 @ interface_code param_name @ drop insert_pos content0;
              content = re_sub HOOK_SIGNATURE (template [G 1, T ''({ params }: PageProps)''])
                          (Some 1) content
          in case re_search HOOK_FUNC_OPEN content of
               None \<Rightarrow> content
             | Some func_match \<Rightarrow> insert_unwrap param_name (m_end func_match) content)"

definition migrate_use_params :: "string \<Rightarrow> string \<Rightarrow> string" where
  \<comment> \<open>Step 3: the \<open>useParams()\<close> hook pattern.\<close>
  "migrate_use_params param_name content0 =
     (let content = re_sub HOOK_IMPORT_A (const_repl []) None content0;
          content = re_sub HOOK_IMPORT_B (const_repl []) None content;
          content = re_sub HOOK_CALL (const_repl []) None content;
          content = foldl (\<lambda>c pattern. re_sub pattern (const_repl []) None c) content
                      (old_id_patterns param_name);
          content = add_page_props param_name content
      in foldl (\<lambda>c (old_var, new_var). re_sub (WORD old_var) (const_repl new_var) None c) content
           id_replacements)"

datatype variant = AlreadyMigrated | ParamsPropPattern | HookPattern | Unrecognized

definition migrate_steps :: "string \<Rightarrow> variant \<times> string" where
  \<comment> \<open>The branch that \<open>migrate_file\<close> takes on a text and the value of \<open>content\<close> at the end
      of it. On \<open>AlreadyMigrated\<close> and \<open>Unrecognized\<close> the function returns \<open>False\<close> before
      the write.\<close>
  "migrate_steps original_content =
     (if already_migrated original_content then (AlreadyMigrated, original_content)
      else
        let param_name = detect_param_name original_content;
            content = add_use_import original_content
        in if uses_params_prop content then
             (ParamsPropPattern, migrate_params_prop param_name content)
           else if contains content ''useParams()'' then
             (HookPattern, migrate_use_params param_name content)
           else (Unrecognized, content))"

definition classify :: "string \<Rightarrow> variant" where
  "classify content = fst (migrate_steps content)"

definition migrate_text :: "string \<Rightarrow> string" where
  \<comment> \<open>The text a run leaves for a file that held \<open>original_content\<close>: the two early returns
      drop their \<open>content\<close>.\<close>
  "migrate_text original_content =
     (case migrate_steps original_content of
        (ParamsPropPattern, content) \<Rightarrow> content
      | (HookPattern, content) \<Rightarrow> content
      | (_, content) \<Rightarrow> original_content)"

definition migrate_file :: "world \<Rightarrow> string \<Rightarrow> io_error + (bool \<times> world)" where
  \<comment> \<open>No \<open>try\<close> here: an error of \<open>open\<close>, \<open>read\<close> or \<open>write\<close> leaves the function.\<close>
  "migrate_file w file_path =
     (case read_text w file_path of
        Inl e \<Rightarrow> Inl e
      | Inr original_content \<Rightarrow>
          (case migrate_steps original_content of
             (AlreadyMigrated, content) \<Rightarrow> Inr (False, w)
           | (Unrecognized, content) \<Rightarrow> Inr (False, w)
           | (_, content) \<Rightarrow>
               if content \<noteq> original_content then
                 (case write_text w file_path content of
                    Inl e \<Rightarrow> Inl e
                  | Inr w' \<Rightarrow> Inr (True, w'))
               else Inr (False, w)))"

record tally =
  modified_files :: "string list"
  skipped_files :: "string list"

fun migrate_loop :: "string list \<Rightarrow> tally \<times> world \<Rightarrow> io_error + (tally \<times> world)" where
  \<comment> \<open>The \<open>for\<close> loop of \<open>main\<close>: an exception of \<open>migrate_file\<close> ends it.\<close>
  "migrate_loop [] (t, w) = Inr (t, w)"
| "migrate_loop (file_path # rest) (t, w) =
     (if path_exists w file_path then
        (case migrate_file w file_path of
           Inl e \<Rightarrow> Inl e
         | Inr (True, w') \<Rightarrow>
             migrate_loop rest (t\<lparr> modified_files := modified_files t @ [file_path] \<rparr>, w')
         | Inr (False, w') \<Rightarrow>
             migrate_loop rest (t\<lparr> skipped_files := skipped_files t @ [file_path] \<rparr>, w'))
      else migrate_loop rest (t\<lparr> skipped_files := skipped_files t @ [file_path] \<rparr>, w))"

section \<open>Notions of the specification\<close>

text \<open>
  The specification describes the tokenizer by a scan that keeps the quote that is open,
  if any, the paren depth and the brace depth. These definitions follow that description;
  the properties below relate them to \<open>split_args\<close>.
\<close>

type_synonym lex = "char option \<times> int \<times> int"

definition lex_clean :: lex where
  "lex_clean = (None, 0, 0)"

fun lex_step :: "lex \<Rightarrow> char \<Rightarrow> lex" where
  "lex_step (Some d, p, b) c = (if c = d then (None, p, b) else (Some d, p, b))"
| "lex_step (None, p, b) c =
     (if is_quote c then (Some c, p, b)
      else if c = CHR ''('' then (None, p + 1, b)
      else if c = CHR '')'' then (None, p - 1, b)
      else if c = CHR ''{'' then (None, p, b + 1)
      else if c = CHR ''}'' then (None, p, b - 1)
      else (None, p, b))"

definition top_comma :: "lex \<Rightarrow> char \<Rightarrow> bool" where
  \<comment> \<open>A comma outside any string and at zero paren and brace depth.\<close>
  "top_comma l c = (c = CHR '','' \<and> l = lex_clean)"

fun top_commas :: "lex \<Rightarrow> string \<Rightarrow> nat" where
  \<comment> \<open>The number of top-level commas of a text scanned from a state.\<close>
  "top_commas l [] = 0"
| "top_commas l (c # cs) =
     (if top_comma l c then Suc (top_commas l cs) else top_commas (lex_step l c) cs)"

fun pieces :: "lex \<Rightarrow> string \<Rightarrow> string \<Rightarrow> string list" where
  \<comment> \<open>The text cut at its top-level commas, untrimmed; \<open>cur\<close> is the piece in flight.\<close>
  "pieces l cur [] = [cur]"
| "pieces l cur (c # cs) =
     (if top_comma l c then cur # pieces l [] cs else pieces (lex_step l c) (cur @ [c]) cs)"

definition tail_piece :: "string \<Rightarrow> string" where
  \<comment> \<open>The text after the last top-level comma (the whole text when there is none).\<close>
  "tail_piece s = last (pieces lex_clean [] s)"

definition nonneg :: "lex \<Rightarrow> bool" where
  "nonneg l = (case l of (q, p, b) \<Rightarrow> 0 \<le> p \<and> 0 \<le> b)"

fun balanced_from :: "lex \<Rightarrow> string \<Rightarrow> bool" where
  \<comment> \<open>No closing paren or brace without its opening one, and at the end no quote, paren or
      brace left open.\<close>
  "balanced_from l [] = (l = lex_clean)"
| "balanced_from l (c # cs) = (nonneg (lex_step l c) \<and> balanced_from (lex_step l c) cs)"

definition well_formed :: "string \<Rightarrow> bool" where
  "well_formed s = balanced_from lex_clean s"

definition is_ident_start :: "char \<Rightarrow> bool" where
  \<comment> \<open>A letter or the underscore.\<close>
  "is_ident_start c =
     ((CHR ''a'' \<le> c \<and> c \<le> CHR ''z'') \<or> (CHR ''A'' \<le> c \<and> c \<le> CHR ''Z'') \<or> c = CHR ''_'')"

definition is_ident_char :: "char \<Rightarrow> bool" where
  \<comment> \<open>A letter, a digit or the underscore.\<close>
  "is_ident_char c = (is_ident_start c \<or> (CHR ''0'' \<le> c \<and> c \<le> CHR ''9''))"

fun is_identifier :: "string \<Rightarrow> bool" where
  \<comment> \<open>The identifier grammar \<open>[a-zA-Z_][a-zA-Z0-9_]*\<close>.\<close>
  "is_identifier [] = False"
| "is_identifier (c # cs) = (is_ident_start c \<and> list_all is_ident_char cs)"

definition folded_entry :: "nat \<Rightarrow> string \<Rightarrow> string" where
  \<comment> \<open>The property that the element at 1-based position \<open>n\<close> among the remaining elements
      becomes.\<close>
  "folded_entry n a = (if is_identifier a then a else ''arg'' @ str_nat n @ '': '' @ a)"

definition call_match :: "string \<Rightarrow> string \<Rightarrow> match" where
  \<comment> \<open>The match object of the call \<open>log.LEVEL(ARGS)\<close> standing alone.\<close>
  "call_match level args =
     \<lparr> m_text = ''log.'' @ level @ ''('' @ args @ '')'',
       m_start = 0,
       m_end = length level + length args + 6,
       m_caps = [(2, length level + 5, length level + 5 + length args), (1, 4, 4 + length level)] \<rparr>"


definition lex_of :: "tok_state \<Rightarrow> lex" where
  \<comment> \<open>What the scan of the specification keeps, read off the tokenizer's variables.\<close>
  "lex_of st = (if in_string st then string_char st else None, paren_depth st, brace_depth st)"

definition tok_inv :: "tok_state \<Rightarrow> bool" where
  \<comment> \<open>\<open>string_char\<close> is set exactly while \<open>in_string\<close> is.\<close>
  "tok_inv st = (in_string st \<longleftrightarrow> string_char st \<noteq> None)"

definition lex_ok :: "lex \<Rightarrow> bool" where
  \<comment> \<open>The quote recorded as open is one of the three quote characters.\<close>
  "lex_ok l = (case l of (None, p, b) \<Rightarrow> True | (Some d, p, b) \<Rightarrow> is_quote d)"

definition lex_run :: "lex \<Rightarrow> string \<Rightarrow> lex" where
  \<comment> \<open>The state of the scan after a text.\<close>
  "lex_run l s = foldl lex_step l s"



section \<open>\<open>main\<close> of \<open>scripts/migrate-params.py\<close> and scenario data\<close>

definition page_files :: "string list" where
  \<comment> \<open>The list \<open>files\<close> of \<open>main\<close>.\<close>
  "page_files =
     [''/Users/eko3/limn-systems-enterprise/src/app/crm/contacts/[id]/page.tsx'',
      ''/Users/eko3/limn-systems-enterprise/src/app/crm/customers/[id]/page.tsx'',
      ''/Users/eko3/limn-systems-enterprise/src/app/crm/leads/[id]/page.tsx'',
      ''/Users/eko3/limn-systems-enterprise/src/app/crm/projects/[id]/page.tsx'',
      ''/Users/eko3/limn-systems-enterprise/src/app/crm/prospects/[id]/page.tsx'',
      ''/Users/eko3/limn-systems-enterprise/src/app/design/boards/[id]/page.tsx'',
      ''/Users/eko3/limn-systems-enterprise/src/app/design/briefs/[id]/page.tsx'',
      ''/Users/eko3/limn-systems-enterprise/src/app/design/projects/[id]/page.tsx'',
      ''/Users/eko3/limn-systems-enterprise/src/app/documents/[id]/page.tsx'',
      ''/Users/eko3/limn-systems-enterprise/src/app/financials/invoices/[id]/page.tsx'',
      ''/Users/eko3/limn-systems-enterprise/src/app/financials/payments/[id]/page.tsx'',
      ''/Users/eko3/limn-systems-enterprise/src/app/partners/designers/[id]/page.tsx'',
      ''/Users/eko3/limn-systems-enterprise/src/app/partners/factories/[id]/page.tsx'',
      ''/Users/eko3/limn-systems-enterprise/src/app/portal/designer/projects/[id]/page.tsx'',
      ''/Users/eko3/limn-systems-enterprise/src/app/portal/factory/orders/[id]/page.tsx'',
      ''/Users/eko3/limn-systems-enterprise/src/app/portal/orders/[id]/page.tsx'',
      ''/Users/eko3/limn-systems-enterprise/src/app/production/factory-reviews/[id]/page.tsx'',
      ''/Users/eko3/limn-systems-enterprise/src/app/production/orders/[id]/page.tsx'',
      ''/Users/eko3/limn-systems-enterprise/src/app/production/packing/[id]/page.tsx'',
      ''/Users/eko3/limn-systems-enterprise/src/app/production/prototypes/[id]/page.tsx'',
      ''/Users/eko3/limn-systems-enterprise/src/app/production/qc/[id]/page.tsx'',
      ''/Users/eko3/limn-systems-enterprise/src/app/production/shop-drawings/[id]/page.tsx'',
      ''/Users/eko3/limn-systems-enterprise/src/app/products/catalog/[id]/page.tsx'',
      ''/Users/eko3/limn-systems-enterprise/src/app/products/collections/[id]/page.tsx'',
      ''/Users/eko3/limn-systems-enterprise/src/app/products/concepts/[id]/page.tsx'',
      ''/Users/eko3/limn-systems-enterprise/src/app/products/prototypes/[id]/page.tsx'',
      ''/Users/eko3/limn-systems-enterprise/src/app/shipping/shipments/[id]/page.tsx'',
      ''/Users/eko3/limn-systems-enterprise/src/app/shipping/tracking/[trackingNumber]/page.tsx'',
      ''/Users/eko3/limn-systems-enterprise/src/app/tasks/[id]/page.tsx'']"

definition migrate_main :: "world \<Rightarrow> io_error + (nat \<times> world)" where
  \<comment> \<open>\<open>main\<close>: the loop over \<open>files\<close>, then exit code 0 when a file was modified, else 1.\<close>
  "migrate_main w =
     (case migrate_loop page_files (\<lparr> modified_files = [], skipped_files = [] \<rparr>, w) of
        Inl e \<Rightarrow> Inl e
      | Inr (t, w') \<Rightarrow> Inr (if length (modified_files t) > 0 then 0 else 1, w'))"

definition plain_file :: "string \<Rightarrow> fnode" where
  "plain_file s = \<lparr> f_text = s, f_decodable = True, f_readable = True, f_writable = True \<rparr>"

definition contacts_page :: string where
  "contacts_page = ''/Users/eko3/limn-systems-enterprise/src/app/crm/contacts/[id]/page.tsx''"

definition customers_page :: string where
  "customers_page = ''/Users/eko3/limn-systems-enterprise/src/app/crm/customers/[id]/page.tsx''"

definition denied_world :: world where
  \<comment> \<open>Two of the listed pages exist; the first may not be read.\<close>
  "denied_world =
     \<lparr> files = [contacts_page \<mapsto> (plain_file ''x'')\<lparr> f_readable := False \<rparr>,
                 customers_page \<mapsto> plain_file ''y''],
       write_log = [] \<rparr>"

definition sample_text :: string where
  "sample_text = ''log.info(a, b) params: { id: string }''"

definition sample_world :: world where
  "sample_world = \<lparr> files = [''a.tsx'' \<mapsto> plain_file sample_text], write_log = [] \<rparr>"

definition readonly_world :: world where
  \<comment> \<open>One file, which may be read but not written.\<close>
  "readonly_world =
     \<lparr> files = [''a.tsx'' \<mapsto> (plain_file sample_text)\<lparr> f_writable := False \<rparr>], write_log = [] \<rparr>"

definition hook_page :: string where
  \<comment> \<open>A page in the hook pattern.\<close>
  "hook_page =
     ''import { useParams } from \"next/navigation\";\<newline>'' @
     ''export default function Page() {\<newline>'' @
     ''  const params = useParams();\<newline>'' @
     ''  const taskId = params.id as string;\<newline>'' @
     ''  return taskId;\<newline>'' @
     ''}\<newline>''"

definition hook_page_migrated :: string where
  "hook_page_migrated =
     ''import {} from \"next/navigation\";\<newline>'' @
     ''interface PageProps {\<newline>'' @
     ''  params: Promise<{ id: string }>;\<newline>'' @
     ''}\<newline>'' @
     ''\<newline>'' @
     ''export default function Page({ params }: PageProps) {\<newline>'' @
     ''  const { id } = use(params);\<newline>'' @
     ''  const params =();\<newline>'' @
     ''    return id;\<newline>'' @
     ''}\<newline>''"

definition react_hook_page :: string where
  \<comment> \<open>A page in the hook pattern whose React import is a default import.\<close>
  "react_hook_page =
     ''import React from \"react\";\<newline>'' @
     ''export default function Page() {\<newline>'' @
     ''  const params = useParams();\<newline>'' @
     ''  return params.id;\<newline>'' @
     ''}\<newline>''"

definition react_hook_page_migrated :: string where
  "react_hook_page_migrated =
     ''import React from \"react\";\<newline>'' @
     ''interface PageProps {\<newline>'' @
     ''  params: Promise<{ id: string }>;\<newline>'' @
     ''}\<newline>'' @
     ''\<newline>'' @
     ''export default function Page({ params }: PageProps) {\<newline>'' @
     ''  const { id } = use(params);\<newline>'' @
     ''  const params =();\<newline>'' @
     ''  return params.id;\<newline>'' @
     ''}\<newline>''"

definition named_hook_page :: string where
  \<comment> \<open>The same page with a named React import.\<close>
  "named_hook_page =
     ''import { useState } from \"react\";\<newline>'' @
     ''export default function Page() {\<newline>'' @
     ''  const params = useParams();\<newline>'' @
     ''  return params.id;\<newline>'' @
     ''}\<newline>''"

definition named_hook_page_migrated :: string where
  "named_hook_page_migrated =
     ''import { use,  useState } from \"react\";\<newline>'' @
     ''interface PageProps {\<newline>'' @
     ''  params: Promise<{ id: string }>;\<newline>'' @
     ''}\<newline>'' @
     ''\<newline>'' @
     ''export default function Page({ params }: PageProps) {\<newline>'' @
     ''  const { id } = use(params);\<newline>'' @
     ''  const params =();\<newline>'' @
     ''  return params.id;\<newline>'' @
     ''}\<newline>''"





definition failed_args :: string where
  \<comment> \<open>The argument text of \<open>log.error('failed', err, userId)\<close>.\<close>
  "failed_args = [CHR 0x27] @ ''failed'' @ [CHR 0x27] @ '', err, userId''"

definition failed_folded :: string where
  \<comment> \<open>\<open>log.error('failed', { err, userId })\<close>\<close>
  "failed_folded = ''log.error('' @ [CHR 0x27] @ ''failed'' @ [CHR 0x27] @ '', { err, userId })''"

definition nested_args :: string where
  \<comment> \<open>A well-formed argument text with nested commas and a trailing comma.\<close>
  "nested_args = ''f(x, y), {a: 1, b}, \"c, d\", ''"

section \<open>Properties\<close>

subsection \<open>Substrings\<close>

lemma startswith_iff: "startswith s p \<longleftrightarrow> (\<exists>b. s = p @ b)"
  by (induction s p rule: startswith.induct) auto

lemma contains_iff: "contains s p \<longleftrightarrow> (\<exists>a b. s = a @ p @ b)"
proof (induction s)
  case Nil
  then show ?case by auto
next
  case (Cons c cs)
  show ?case
  proof
    assume "contains (c # cs) p"
    then consider "startswith (c # cs) p" | "contains cs p" by auto
    then show "\<exists>a b. c # cs = a @ p @ b"
    proof cases
      case 1
      then obtain b where "c # cs = p @ b" by (auto simp: startswith_iff)
      then have "c # cs = [] @ p @ b" by simp
      then show ?thesis by blast
    next
      case 2
      then obtain a b where "cs = a @ p @ b" using Cons.IH by blast
      then have "c # cs = (c # a) @ p @ b" by simp
      then show ?thesis by blast
    qed
  next
    assume "\<exists>a b. c # cs = a @ p @ b"
    then obtain a b where e: "c # cs = a @ p @ b" by blast
    show "contains (c # cs) p"
    proof (cases a)
      case Nil
      with e have "startswith (c # cs) p" by (auto simp: startswith_iff)
      then show ?thesis by simp
    next
      case (Cons x xs)
      with e have "cs = xs @ p @ b" by simp
      then have "contains cs p" using Cons.IH by blast
      then show ?thesis by simp
    qed
  qed
qed

lemma contains_middle:
  assumes "contains s (x @ y @ z)"
  shows "contains s y"
proof -
  from assms obtain a b where "s = a @ (x @ y @ z) @ b" by (auto simp: contains_iff)
  then have "s = (a @ x) @ y @ (z @ b)" by simp
  then show ?thesis unfolding contains_iff by blast
qed

subsection \<open>The tokenizer follows the scan of the specification\<close>

lemma pieces_nonempty: "pieces l cur s \<noteq> []"
  by (induction s arbitrary: l cur) auto

lemma length_pieces: "length (pieces l cur s) = Suc (top_commas l s)"
  by (induction s arbitrary: l cur) auto

lemma tok_step_comma:
  "tok_inv st \<Longrightarrow> top_comma (lex_of st) c \<Longrightarrow>
   tok_step st c = st\<lparr> arg_parts := arg_parts st @ [strip (current_arg st)], current_arg := [] \<rparr>"
  by (auto simp: tok_step_def top_comma_def lex_of_def lex_clean_def is_quote_def tok_inv_def
           split: if_splits)

lemma tok_step_other:
  "tok_inv st \<Longrightarrow> \<not> top_comma (lex_of st) c \<Longrightarrow>
   arg_parts (tok_step st c) = arg_parts st \<and>
   current_arg (tok_step st c) = current_arg st @ [c] \<and>
   lex_of (tok_step st c) = lex_step (lex_of st) c \<and> tok_inv (tok_step st c)"
  by (cases "string_char st")
     (auto simp: tok_step_def top_comma_def lex_of_def lex_clean_def is_quote_def tok_inv_def)

lemma tok_step_comma_inv:
  "tok_inv st \<Longrightarrow> top_comma (lex_of st) c \<Longrightarrow>
   tok_inv (tok_step st c) \<and> lex_of (tok_step st c) = lex_of st"
  by (simp add: tok_step_comma) (simp add: tok_inv_def lex_of_def)

lemma foldl_tok_step:
  "tok_inv st \<Longrightarrow>
   arg_parts (foldl tok_step st s) =
     arg_parts st @ map strip (butlast (pieces (lex_of st) (current_arg st) s)) \<and>
   current_arg (foldl tok_step st s) = last (pieces (lex_of st) (current_arg st) s)"
proof (induction s arbitrary: st)
  case Nil
  then show ?case by simp
next
  case (Cons c cs)
  show ?case
  proof (cases "top_comma (lex_of st) c")
    case True
    let ?st = "tok_step st c"
    have i: "tok_inv ?st" and l: "lex_of ?st = lex_of st"
      using tok_step_comma_inv [OF Cons.prems True] by simp_all
    have a: "arg_parts ?st = arg_parts st @ [strip (current_arg st)]" and c: "current_arg ?st = []"
      using tok_step_comma [OF Cons.prems True] by simp_all
    from Cons.IH [OF i] True show ?thesis
      by (simp add: l a c pieces_nonempty)
  next
    case False
    let ?st = "tok_step st c"
    from tok_step_other [OF Cons.prems False]
    have i: "tok_inv ?st" and l: "lex_of ?st = lex_step (lex_of st) c"
      and a: "arg_parts ?st = arg_parts st" and c: "current_arg ?st = current_arg st @ [c]"
      by simp_all
    from Cons.IH [OF i] False show ?thesis
      by (simp add: l a c)
  qed
qed

lemma split_args_pieces:
  "split_args s =
     map strip (butlast (pieces lex_clean [] s)) @
     (if strip (tail_piece s) = [] then [] else [strip (tail_piece s)])"
proof -
  have i: "tok_inv tok_init" by (simp add: tok_inv_def tok_init_def)
  have l: "lex_of tok_init = lex_clean" "current_arg tok_init = []" "arg_parts tok_init = []"
    by (simp_all add: lex_of_def tok_init_def lex_clean_def)
  from foldl_tok_step [OF i, of s] show ?thesis
    by (simp add: split_args_def tok_finish_def l tail_piece_def)
qed

lemma isspace_plain:
  "isspace c \<Longrightarrow>
   \<not> is_quote c \<and> c \<noteq> CHR ''('' \<and> c \<noteq> CHR '')'' \<and> c \<noteq> CHR ''{'' \<and> c \<noteq> CHR ''}'' \<and> c \<noteq> CHR '',''"
  by (auto simp: isspace_def is_quote_def)

lemma pieces_blank: "\<forall>c\<in>set s. isspace c \<Longrightarrow> pieces lex_clean cur s = [cur @ s]"
  by (induction s arbitrary: cur) (auto simp: top_comma_def lex_clean_def dest: isspace_plain)

lemma strip_blank:
  assumes "\<forall>c\<in>set s. isspace c"
  shows "strip s = []"
proof -
  from assms have "dropWhile isspace s = []" by simp
  then show ?thesis by (simp add: strip_def del: dropWhile_eq_Nil_conv)
qed

subsection \<open>The tokenizer's edge cases\<close>

text \<open>
  C5. The tokenizer maps the empty argument string and a whitespace-only argument string
  to the empty sequence. In general the fragments are the trimmed pieces between the
  top-level commas: every piece before a top-level comma is appended, also when it trims
  to the empty string, and only the piece after the last top-level comma is discarded when
  it is empty after trimming.
\<close>

theorem split_args_edge_cases:
  "split_args [] = [] \<and>
   ((\<forall>c\<in>set s. isspace c) \<longrightarrow> split_args s = []) \<and>
   split_args s =
     map strip (butlast (pieces lex_clean [] s)) @
     (if strip (tail_piece s) = [] then [] else [strip (tail_piece s)])"
proof (intro conjI impI)
  show "split_args [] = []"
    by (simp add: split_args_def tok_finish_def tok_init_def strip_def)
next
  assume b: "\<forall>c\<in>set s. isspace c"
  have "pieces lex_clean [] s = [s]" using pieces_blank [OF b, of "[]"] by simp
  then show "split_args s = []"
    using strip_blank [OF b] by (simp add: split_args_pieces tail_piece_def)
next
  show "split_args s =
     map strip (butlast (pieces lex_clean [] s)) @
     (if strip (tail_piece s) = [] then [] else [strip (tail_piece s)])"
    by (rule split_args_pieces)
qed

theorem split_args_edge_cases_witness:
  "isspace CHR '' '' \<and> split_args ''  '' = [] \<and>
   pieces lex_clean [] ''a, ,b, '' = [''a'', '' '', ''b'', '' ''] \<and>
   split_args ''a, ,b, '' = [''a'', [], ''b'']"
  using split_args_edge_cases [of "''  ''"] split_args_edge_cases [of "''a, ,b, ''"]
  by (simp add: isspace_def top_comma_def lex_clean_def is_quote_def strip_def tail_piece_def)

subsection \<open>Parameter name\<close>

text \<open>
  C7, as amended. The detected parameter name is \<open>trackingNumber\<close> exactly when the text
  contains the substring \<open>trackingNumber\<close>, with or without the brackets of a route
  segment, and \<open>id\<close> otherwise.
\<close>

theorem detect_param_name_substring:
  "detect_param_name content =
     (if contains content ''trackingNumber'' then ''trackingNumber'' else ''id'')"
  using contains_middle [of content "''[''" "''trackingNumber''" "'']''"]
  by (auto simp: detect_param_name_def)

theorem detect_param_name_substring_witness:
  "detect_param_name ''/tracking/[trackingNumber]/page'' = ''trackingNumber'' \<and>
   detect_param_name ''const trackingNumber = 1'' = ''trackingNumber'' \<and>
   detect_param_name ''const id = 1'' = ''id''"
  using detect_param_name_substring [of "''/tracking/[trackingNumber]/page''"]
    detect_param_name_substring [of "''const trackingNumber = 1''"]
    detect_param_name_substring [of "''const id = 1''"]
  by simp

text \<open>
  C7 as stated fails: a text that mentions \<open>trackingNumber\<close> without the route-segment
  marker \<open>[trackingNumber]\<close> does not yield \<open>id\<close>.
\<close>

theorem detect_param_name_counterexample:
  "\<not> contains ''const trackingNumber = 1'' ''[trackingNumber]'' \<and>
   detect_param_name ''const trackingNumber = 1'' \<noteq> ''id''"
  by (simp add: detect_param_name_def)

subsection \<open>Write on change\<close>

lemma read_ok:
  "files w p = Some f \<Longrightarrow> f_readable f \<Longrightarrow> f_decodable f \<Longrightarrow> read_text w p = Inr (f_text f)"
  by (simp add: read_text_def)

lemma write_ok:
  "files w p = Some f \<Longrightarrow> f_writable f \<Longrightarrow>
   \<exists>w'. write_text w p s = Inr w' \<and> write_log w' = write_log w @ [(p, s)]"
  by (simp add: write_text_def)

text \<open>
  C8. For a file that can be read and written, each driver writes the file back exactly
  when the text that the recipe leaves for it differs from the original text, writes that
  text, and reports \<open>True\<close> exactly in that case; when the two are equal nothing is
  written. (For the params driver the recipe's text on the two early returns,
  \<open>AlreadyMigrated\<close> and \<open>Unrecognized\<close>, is the original text.)
\<close>

theorem drivers_write_iff_changed:
  assumes "files w p = Some f" "f_readable f" "f_decodable f" "f_writable f"
  shows "fst (fix_file w p) = (fix_text (f_text f) \<noteq> f_text f) \<and>
         write_log (snd (fix_file w p)) =
           write_log w @ (if fix_text (f_text f) \<noteq> f_text f then [(p, fix_text (f_text f))] else []) \<and>
         (\<exists>w'. migrate_file w p = Inr (migrate_text (f_text f) \<noteq> f_text f, w') \<and>
               write_log w' =
                 write_log w @ (if migrate_text (f_text f) \<noteq> f_text f
                                then [(p, migrate_text (f_text f))] else []))"
proof -
  note r = read_ok [OF assms(1-3)]
  have lg: "fst (fix_file w p) = (fix_text (f_text f) \<noteq> f_text f) \<and>
         write_log (snd (fix_file w p)) =
           write_log w @ (if fix_text (f_text f) \<noteq> f_text f then [(p, fix_text (f_text f))] else [])"
    using write_ok [OF assms(1) assms(4), of "fix_text (f_text f)"]
    by (auto simp: fix_file_def fix_file_try_def r)
  obtain v c where ms: "migrate_steps (f_text f) = (v, c)" by (cases "migrate_steps (f_text f)")
  have mig: "\<exists>w'. migrate_file w p = Inr (migrate_text (f_text f) \<noteq> f_text f, w') \<and>
               write_log w' =
                 write_log w @ (if migrate_text (f_text f) \<noteq> f_text f
                                then [(p, migrate_text (f_text f))] else [])"
    using write_ok [OF assms(1) assms(4), of c]
    by (cases v) (auto simp: migrate_file_def migrate_text_def r ms)
  from lg mig show ?thesis by blast
qed

lemma fix_text_sample: "fix_text sample_text = ''log.info(a, { b }) params: { id: string }''"
  unfolding sample_text_def by code_simp

lemma migrate_text_sample: "migrate_text sample_text = ''log.info(a, b) params: Promise<{ id: string }>''"
  unfolding sample_text_def by code_simp

theorem drivers_write_iff_changed_witness:
  "files sample_world ''a.tsx'' = Some (plain_file sample_text) \<and>
   f_readable (plain_file sample_text) \<and> f_decodable (plain_file sample_text) \<and>
   f_writable (plain_file sample_text) \<and>
   fst (fix_file sample_world ''a.tsx'') \<and>
   write_log (snd (fix_file sample_world ''a.tsx'')) =
     [(''a.tsx'', ''log.info(a, { b }) params: { id: string }'')] \<and>
   (\<exists>w'. migrate_file sample_world ''a.tsx'' = Inr (True, w') \<and>
         write_log w' = [(''a.tsx'', ''log.info(a, b) params: Promise<{ id: string }>'')])"
proof -
  have f: "files sample_world ''a.tsx'' = Some (plain_file sample_text)"
    by (simp add: sample_world_def)
  have t: "f_text (plain_file sample_text) = sample_text" "write_log sample_world = []"
    by (simp_all add: plain_file_def sample_world_def)
  have n: "fix_text sample_text \<noteq> sample_text" "migrate_text sample_text \<noteq> sample_text"
    unfolding fix_text_sample migrate_text_sample by (simp_all add: sample_text_def)
  from drivers_write_iff_changed [OF f, simplified t] n f
  show ?thesis
    by (simp add: plain_file_def fix_text_sample migrate_text_sample)
qed

subsection \<open>Classification\<close>

text \<open>
  C6. Every text gets exactly one of the four variants. The rules are tried in the order
  \<open>AlreadyMigrated\<close>, \<open>ParamsPropPattern\<close>, \<open>HookPattern\<close>, \<open>Unrecognized\<close> and the first that
  matches wins (the two pattern rules read the text after the import step). A text that
  contains \<open>use(params)\<close> is \<open>AlreadyMigrated\<close>: its text is left as it is and the file is
  not written.
\<close>

theorem classify_first_match:
  "(\<exists>!v. classify content = v) \<and>
   classify content =
     (if already_migrated content then AlreadyMigrated
      else if uses_params_prop (add_use_import content) then ParamsPropPattern
      else if contains (add_use_import content) ''useParams()'' then HookPattern
      else Unrecognized) \<and>
   (contains content ''use(params)'' \<longrightarrow>
      classify content = AlreadyMigrated \<and> migrate_steps content = (AlreadyMigrated, content) \<and>
      migrate_text content = content \<and>
      (\<forall>w p. read_text w p = Inr content \<longrightarrow> migrate_file w p = Inr (False, w)))"
  by (auto simp: classify_def migrate_steps_def Let_def migrate_text_def migrate_file_def
                 already_migrated_def)

theorem classify_first_match_witness:
  "contains ''const { id } = use(params);'' ''use(params)'' \<and>
   classify ''const { id } = use(params);'' = AlreadyMigrated \<and>
   migrate_text ''const { id } = use(params);'' = ''const { id } = use(params);''"
  using classify_first_match [of "''const { id } = use(params);''"]
  by (simp add: already_migrated_def)

subsection \<open>Failures of reading and writing\<close>

text \<open>
  C9, as amended. In the logging driver a failure of reading or writing a file is absorbed
  by \<open>fix_file\<close>, which returns \<open>False\<close> and leaves the files as they were, and the loop goes
  on with the remaining files. In the params driver a missing file is skipped by the loop,
  which goes on; a failure of reading a file that exists, or of writing the migrated text,
  leaves \<open>migrate_file\<close> as an exception, and any exception of \<open>migrate_file\<close> ends the loop.
\<close>

theorem io_failure_by_driver:
  "(fix_file_try w p = Inl e \<longrightarrow>
      fix_file w p = (False, w) \<and> fix_loop (p # rest) (n, w) = fix_loop rest (n, w)) \<and>
   (\<not> path_exists w p \<longrightarrow>
      migrate_loop (p # rest) (t, w) =
        migrate_loop rest (t\<lparr> skipped_files := skipped_files t @ [p] \<rparr>, w)) \<and>
   (read_text w p = Inl e \<longrightarrow> migrate_file w p = Inl e) \<and>
   (read_text w p = Inr content \<and> migrate_text content \<noteq> content \<and>
    write_text w p (migrate_text content) = Inl e \<longrightarrow> migrate_file w p = Inl e) \<and>
   (path_exists w p \<and> migrate_file w p = Inl e \<longrightarrow> migrate_loop (p # rest) (t, w) = Inl e)"
proof -
  have wr: "migrate_file w p = Inl e"
    if "read_text w p = Inr content" "migrate_text content \<noteq> content"
      "write_text w p (migrate_text content) = Inl e"
  proof -
    obtain v c where ms: "migrate_steps content = (v, c)" by (cases "migrate_steps content")
    with that show ?thesis by (cases v) (auto simp: migrate_file_def migrate_text_def)
  qed
  then show ?thesis by (auto simp: fix_file_def migrate_file_def)
qed

theorem io_failure_by_driver_witness:
  "fix_file_try denied_world contacts_page = Inl PermissionError \<and>
   fix_file denied_world contacts_page = (False, denied_world) \<and>
   fix_loop [contacts_page] (0, denied_world) = (0, denied_world) \<and>
   \<not> path_exists denied_world ''nowhere'' \<and>
   migrate_loop [''nowhere''] (\<lparr> modified_files = [], skipped_files = [] \<rparr>, denied_world) =
     Inr (\<lparr> modified_files = [], skipped_files = [''nowhere''] \<rparr>, denied_world) \<and>
   read_text denied_world contacts_page = Inl PermissionError \<and>
   path_exists denied_world contacts_page \<and>
   migrate_loop [contacts_page, customers_page]
     (\<lparr> modified_files = [], skipped_files = [] \<rparr>, denied_world) = Inl PermissionError \<and>
   read_text readonly_world ''a.tsx'' = Inr sample_text \<and>
   write_text readonly_world ''a.tsx'' (migrate_text sample_text) = Inl PermissionError \<and>
   migrate_file readonly_world ''a.tsx'' = Inl PermissionError"
proof -
  let ?t0 = "\<lparr> modified_files = [], skipped_files = [] \<rparr>"
  have r: "read_text denied_world contacts_page = Inl PermissionError"
    by (simp add: denied_world_def read_text_def plain_file_def contacts_page_def customers_page_def)
  have t: "fix_file_try denied_world contacts_page = Inl PermissionError"
    by (simp add: fix_file_try_def r)
  have x: "path_exists denied_world contacts_page" "\<not> path_exists denied_world ''nowhere''"
    by (simp_all add: denied_world_def path_exists_def contacts_page_def customers_page_def)
  have ro: "read_text readonly_world ''a.tsx'' = Inr sample_text"
    "write_text readonly_world ''a.tsx'' (migrate_text sample_text) = Inl PermissionError"
    by (simp_all add: readonly_world_def read_text_def write_text_def plain_file_def)
  have n: "migrate_text sample_text \<noteq> sample_text"
    unfolding migrate_text_sample by (simp add: sample_text_def)
  note th = io_failure_by_driver [of denied_world contacts_page PermissionError "[]" 0 ?t0]
  note th2 = io_failure_by_driver [of denied_world "''nowhere''" PermissionError "[]" 0 ?t0]
  note th3 = io_failure_by_driver [of denied_world contacts_page PermissionError
               "[customers_page]" 0 ?t0]
  note th4 = io_failure_by_driver [of readonly_world "''a.tsx''" PermissionError "[]" 0 ?t0
               sample_text]
  from th4 ro n have m: "migrate_file readonly_world ''a.tsx'' = Inl PermissionError" by blast
  from th th2 th3 r t x ro m show ?thesis by simp
qed

text \<open>
  C9 as stated fails for the params driver: with the first listed page unreadable, the
  error leaves \<open>migrate_file\<close> and the loop, and the second page, which exists, is never
  processed.
\<close>

theorem migrate_batch_aborts_counterexample:
  "path_exists denied_world customers_page \<and>
   migrate_file denied_world contacts_page = Inl PermissionError \<and>
   migrate_loop page_files (\<lparr> modified_files = [], skipped_files = [] \<rparr>, denied_world) =
     Inl PermissionError \<and>
   migrate_main denied_world = Inl PermissionError"
  by (simp add: migrate_main_def page_files_def denied_world_def contacts_page_def
        customers_page_def path_exists_def migrate_file_def read_text_def plain_file_def)

subsection \<open>Character classes by bits, for evaluation\<close>

lemma isspace_bits [code]:
  "isspace (Char b0 b1 b2 b3 b4 b5 b6 b7) =
     (if b7 then \<not> b6 \<and> \<not> b4 \<and> \<not> b3 \<and> \<not> b1 \<and> ((b5 \<and> \<not> b2 \<and> \<not> b0) \<or> (\<not> b5 \<and> b2 \<and> b0))
      else \<not> b6 \<and>
        (if b5 then \<not> b4 \<and> \<not> b3 \<and> \<not> b2 \<and> \<not> b1 \<and> \<not> b0
         else if b4 then b3 \<and> b2
         else b3 \<and> ((\<not> b2 \<and> (b1 \<or> b0)) \<or> (b2 \<and> \<not> b1))))"
  by (cases b0; cases b1; cases b2; cases b3; cases b4; cases b5; cases b6; cases b7)
     (simp_all add: isspace_def)

lemma isword_bits [code]:
  "isword (Char b0 b1 b2 b3 b4 b5 b6 b7) =
     (if b7 then
        (if b6 then (b4 \<longrightarrow> \<not> (\<not> b3 \<and> b2 \<and> b1 \<and> b0))
         else b5 \<and> (if b4 then (if b3 then (\<not> b2 \<and> (b1 \<noteq> b0)) \<or> (b2 \<and> \<not> (b1 \<and> b0))
                                 else (\<not> b2 \<and> b1) \<or> (b2 \<and> \<not> b1 \<and> b0))
                     else b3 \<and> \<not> b2 \<and> b1 \<and> \<not> b0))
      else
        (if b6 then
           (if b4 then (\<not> b3 \<or> (\<not> b2 \<and> (\<not> b1 \<or> \<not> b0))) \<or> (\<not> b5 \<and> b3 \<and> b2 \<and> b1 \<and> b0)
            else b3 \<or> b2 \<or> b1 \<or> b0)
         else b5 \<and> b4 \<and> (\<not> b3 \<or> (\<not> b2 \<and> \<not> b1))))"
  by (cases b0; cases b1; cases b2; cases b3; cases b4; cases b5; cases b6; cases b7)
     (simp_all add: isword_def)

subsection \<open>The hook migration on a page\<close>

lemma hook_page_steps: "migrate_steps hook_page = (HookPattern, hook_page_migrated)"
  by code_simp

lemma hook_page_migrated_line: "contains hook_page_migrated ''const params =();''"
  by code_simp

text \<open>
  C3, at a failing input. On a page in the hook pattern the migration inserts the
  \<open>PageProps\<close> interface, the destructured \<open>{ params }\<close> parameter and the unwrap binding and
  renames \<open>taskId\<close> to \<open>id\<close>, but the line of the hook call is not removed: the first
  substitution deletes every \<open>useParams\<close>, so the pattern for the line
  \<open>const params = useParams();\<close> finds nothing and the line stays as \<open>const params =();\<close>.
\<close>

theorem hook_call_line_survives:
  "classify hook_page = HookPattern \<and> migrate_text hook_page = hook_page_migrated \<and>
   contains (migrate_text hook_page) ''const params =();''"
  by (simp add: classify_def migrate_text_def hook_page_steps hook_page_migrated_line)

lemma react_hook_page_steps:
  "migrate_steps react_hook_page = (HookPattern, react_hook_page_migrated)"
  by code_simp

lemma react_hook_page_import:
  "\<not> already_migrated react_hook_page \<and>
   contains react_hook_page ''from \"react\"'' \<and>
   re_search USE_IMPORTED react_hook_page = None \<and>
   add_use_import react_hook_page = react_hook_page"
  by code_simp

lemma named_hook_page_steps:
  "migrate_steps named_hook_page = (HookPattern, named_hook_page_migrated)"
  by code_simp

text \<open>
  C10, at a failing input. A page in the hook pattern that is not already migrated and
  whose React import is the default import \<open>import React from "react"\<close> passes the test of
  the import step (\<open>from "react"\<close> occurs and no import of \<open>use\<close> is found), but the
  substitution only matches an import with braces: the import is left without \<open>use\<close>,
  while the migrated page calls \<open>use(params)\<close>. The same page with the named import
  \<open>import { useState } from "react"\<close> does get \<open>use\<close> injected.
\<close>

theorem default_import_gets_no_use:
  "\<not> already_migrated react_hook_page \<and>
   contains react_hook_page ''from \"react\"'' \<and>
   re_search USE_IMPORTED react_hook_page = None \<and>
   classify react_hook_page = HookPattern \<and>
   add_use_import react_hook_page = react_hook_page \<and>
   migrate_text react_hook_page = react_hook_page_migrated \<and>
   classify named_hook_page = HookPattern \<and>
   migrate_text named_hook_page = named_hook_page_migrated"
  using react_hook_page_import
  by (simp add: classify_def migrate_text_def react_hook_page_steps named_hook_page_steps)

subsection \<open>The identifier pattern and the identifier grammar\<close>

lemma runs_reach_end:
  "(\<exists>p\<in>set (runs k (i, prev, s)). snd (snd p) = [] \<or> snd (snd p) = [CHR 0x0A]) \<longleftrightarrow>
   (list_all (cls_ok k) s \<or> (\<exists>t. s = t @ [CHR 0x0A] \<and> list_all (cls_ok k) t))"
proof (induction s arbitrary: i prev)
  case Nil
  then show ?case by simp
next
  case (Cons c cs)
  let ?E = "\<lambda>p :: mpos. snd (snd p) = [] \<or> snd (snd p) = [CHR 0x0A]"
  have r: "(\<exists>t. c # cs = t @ [CHR 0x0A] \<and> list_all (cls_ok k) t) \<longleftrightarrow>
        (c # cs = [CHR 0x0A] \<or> (cls_ok k c \<and> (\<exists>t. cs = t @ [CHR 0x0A] \<and> list_all (cls_ok k) t)))"
    (is "?R1 \<longleftrightarrow> ?R2")
  proof
    assume ?R1
    then obtain t where t: "c # cs = t @ [CHR 0x0A]" "list_all (cls_ok k) t" by blast
    show ?R2
    proof (cases t)
      case Nil
      with t show ?thesis by simp
    next
      case (Cons x xs)
      with t have "cls_ok k c" "cs = xs @ [CHR 0x0A]" "list_all (cls_ok k) xs" by simp_all
      then show ?thesis by blast
    qed
  next
    assume ?R2
    then consider "c # cs = [CHR 0x0A]"
      | t where "cls_ok k c" "cs = t @ [CHR 0x0A]" "list_all (cls_ok k) t" by blast
    then show ?R1
    proof cases
      case 1
      then have "c # cs = [] @ [CHR 0x0A] \<and> list_all (cls_ok k) []" by simp
      then show ?thesis by blast
    next
      case 2
      then have "c # cs = (c # t) @ [CHR 0x0A] \<and> list_all (cls_ok k) (c # t)" by simp
      then show ?thesis by blast
    qed
  qed
  have l: "(\<exists>p\<in>set (runs k (i, prev, c # cs)). ?E p) \<longleftrightarrow>
           (c # cs = [CHR 0x0A] \<or> (cls_ok k c \<and> (\<exists>p\<in>set (runs k (Suc i, Some c, cs)). ?E p)))"
    by (cases "cls_ok k c") simp_all
  show ?case
    unfolding l r Cons.IH by auto
qed

lemma rx_Eol_iff: "rx Eol (q, g) \<noteq> [] \<longleftrightarrow> snd (snd q) = [] \<or> snd (snd q) = [CHR 0x0A]"
  by (cases q) auto

lemma rx_star_eol:
  "rx (Seq (Star k) Eol) (p, g) \<noteq> [] \<longleftrightarrow>
   (\<exists>q\<in>set (runs k p). snd (snd q) = [] \<or> snd (snd q) = [CHR 0x0A])"
proof -
  have "rx (Seq (Star k) Eol) (p, g) \<noteq> [] \<longleftrightarrow> (\<exists>q\<in>set (runs k p). rx Eol (q, g) \<noteq> [])"
    by (simp del: rx.simps(11))
  then show ?thesis by (simp only: rx_Eol_iff)
qed

lemma rx_Bol_first: "rx (Seq Bol r) ((0, None, s), g) = rx r ((0, None, s), g)"
  by simp

lemma rx_Cls_first:
  "rx (Seq (Cls k) r) ((i, prev, c # cs), g) =
     (if cls_ok k c then rx r ((Suc i, Some c, cs), g) else [])"
  by simp

lemma rx_Cls_empty: "rx (Seq (Cls k) r) ((i, prev, []), g) = []"
  by simp

lemma match_at_None: "match_at r p = None \<longleftrightarrow> rx r (p, []) = []"
  by (auto simp: match_at_def split: list.splits)

lemma ident_start_cls:
  "cls_ok (CSet [Range CHR ''a'' CHR ''z'', Range CHR ''A'' CHR ''Z'', One CHR ''_'']) c = is_ident_start c"
  by (auto simp: in_items_def is_ident_start_def less_eq_char_def)

lemma ident_char_cls:
  "cls_ok (CSet [Range CHR ''a'' CHR ''z'', Range CHR ''A'' CHR ''Z'', Range CHR ''0'' CHR ''9'',
                 One CHR ''_'']) c = is_ident_char c"
  by (auto simp: in_items_def is_ident_char_def is_ident_start_def less_eq_char_def)

lemma re_match_IDENT:
  "re_match IDENT s \<noteq> None \<longleftrightarrow>
   is_identifier s \<or> (\<exists>t. s = t @ [CHR 0x0A] \<and> is_identifier t)"
proof (cases s)
  case Nil
  have "re_match IDENT [] = None"
    unfolding re_match_def match_at_None IDENT_def seqs.simps rx_Bol_first rx_Cls_empty ..
  with Nil show ?thesis by simp
next
  case (Cons c cs)
  let ?B = "CSet [Range CHR ''a'' CHR ''z'', Range CHR ''A'' CHR ''Z'', Range CHR ''0'' CHR ''9'',
                 One CHR ''_'']"
  have nl: "\<not> is_ident_start (CHR 0x0A)" by (simp add: is_ident_start_def less_eq_char_def)
  have m: "re_match IDENT (c # cs) \<noteq> None \<longleftrightarrow>
           is_ident_start c \<and> rx (Seq (Star ?B) Eol) ((Suc 0, Some c, cs), []) \<noteq> []"
    unfolding re_match_def match_at_None IDENT_def seqs.simps rx_Bol_first rx_Cls_first
      ident_start_cls by simp
  have l: "list_all (cls_ok ?B) = list_all is_ident_char"
    using ident_char_cls by (intro ext) (simp add: list_all_iff del: cls_ok.simps)
  have e: "(\<exists>t. c # cs = t @ [CHR 0x0A] \<and> is_identifier t) \<longleftrightarrow>
           is_ident_start c \<and> (\<exists>t. cs = t @ [CHR 0x0A] \<and> list_all is_ident_char t)"
    (is "?E1 \<longleftrightarrow> ?E2")
  proof
    assume ?E1
    then obtain t where t: "c # cs = t @ [CHR 0x0A]" "is_identifier t" by blast
    then obtain x xs where "t = x # xs" by (cases t) auto
    with t have "is_ident_start c" "cs = xs @ [CHR 0x0A]" "list_all is_ident_char xs" by simp_all
    then show ?E2 by blast
  next
    assume ?E2
    then obtain t where "is_ident_start c" "cs = t @ [CHR 0x0A]" "list_all is_ident_char t" by blast
    then have "c # cs = (c # t) @ [CHR 0x0A] \<and> is_identifier (c # t)" by simp
    then show ?E1 by blast
  qed
  show ?thesis
    unfolding Cons m rx_star_eol runs_reach_end l e by auto
qed

subsection \<open>Trimming\<close>

lemma rev_split: "t = rev (dropWhile P (rev t)) @ rev (takeWhile P (rev t))"
proof -
  have "rev (takeWhile P (rev t) @ dropWhile P (rev t)) = rev (rev t)"
    by (simp only: takeWhile_dropWhile_id)
  then have "rev (dropWhile P (rev t)) @ rev (takeWhile P (rev t)) = t"
    by (simp only: rev_append rev_rev_ident)
  then show ?thesis by (rule sym)
qed

lemma strip_tail: "dropWhile isspace s = strip s @ rev (takeWhile isspace (rev (dropWhile isspace s)))"
  unfolding strip_def by (rule rev_split)

lemma strip_decomp:
  "\<exists>w1 w2. s = w1 @ strip s @ w2 \<and> (\<forall>c\<in>set w1. isspace c) \<and> (\<forall>c\<in>set w2. isspace c)"
proof -
  let ?t = "dropWhile isspace s"
  let ?w1 = "takeWhile isspace s"
  let ?w2 = "rev (takeWhile isspace (rev ?t))"
  have "s = ?w1 @ ?t" by simp
  also have "?t = strip s @ ?w2" by (rule strip_tail)
  finally have a: "s = ?w1 @ strip s @ ?w2" .
  have c: "\<forall>c\<in>set ?w1. isspace c" by (auto dest: set_takeWhileD)
  have d: "\<forall>c\<in>set ?w2. isspace c" by (auto dest: set_takeWhileD)
  from a c d show ?thesis by blast
qed

lemma strip_last: "strip s \<noteq> [] \<Longrightarrow> \<not> isspace (last (strip s))"
proof -
  assume n: "strip s \<noteq> []"
  let ?u = "dropWhile isspace (rev (dropWhile isspace s))"
  from n have u: "?u \<noteq> []" by (simp add: strip_def del: dropWhile_eq_Nil_conv)
  then have "\<not> isspace (hd ?u)" by (rule hd_dropWhile)
  moreover have "last (strip s) = hd ?u" using u by (simp add: strip_def last_rev del: dropWhile_eq_Nil_conv)
  ultimately show ?thesis by simp
qed

lemma strip_hd: "strip s \<noteq> [] \<Longrightarrow> \<not> isspace (hd (strip s))"
proof -
  assume n: "strip s \<noteq> []"
  let ?t = "dropWhile isspace s"
  have t: "?t \<noteq> []" using n by (auto simp: strip_def simp del: dropWhile_eq_Nil_conv)
  then have h: "\<not> isspace (hd ?t)" by (rule hd_dropWhile)
  have "hd ?t = hd (strip s @ rev (takeWhile isspace (rev ?t)))"
    using strip_tail [of s] by (rule arg_cong)
  with n have "hd ?t = hd (strip s)" by simp
  with h show ?thesis by simp
qed

lemma strip_fixed:
  assumes "x = [] \<or> (\<not> isspace (hd x) \<and> \<not> isspace (last x))"
  shows "strip x = x"
proof (cases "x = []")
  case True
  then show ?thesis by (simp add: strip_def)
next
  case False
  with assms have h: "\<not> isspace (hd x)" and l: "\<not> isspace (last x)" by simp_all
  from False h have a: "dropWhile isspace x = x" by (cases x) simp_all
  from False l have "\<not> isspace (hd (rev x))" by (simp add: hd_rev)
  with False have b: "dropWhile isspace (rev x) = rev x" by (cases "rev x") simp_all
  show ?thesis by (simp add: strip_def a b)
qed

lemma strip_strip: "strip (strip s) = strip s"
  by (rule strip_fixed) (use strip_hd strip_last in blast)

lemma strip_no_newline: "strip s \<noteq> t @ [CHR 0x0A]"
proof
  assume e: "strip s = t @ [CHR 0x0A]"
  then have "strip s \<noteq> []" by simp
  then have "\<not> isspace (last (strip s))" by (rule strip_last)
  with e show False by (simp add: isspace_def)
qed

lemma re_match_IDENT_strip: "re_match IDENT (strip a) \<noteq> None \<longleftrightarrow> is_identifier (strip a)"
  unfolding re_match_IDENT using strip_no_newline [of a] by blast

lemma metadata_entries_folded:
  "metadata_entries i rest = map (\<lambda>(n, a). folded_entry n (strip a)) (enumerate (Suc i) rest)"
proof (induction rest arbitrary: i)
  case Nil
  then show ?case by simp
next
  case (Cons a rest)
  show ?case
    using Cons.IH [of "Suc i"] re_match_IDENT_strip [of a]
    by (simp add: Let_def folded_entry_def)
qed

lemma split_args_stripped: "a \<in> set (split_args s) \<Longrightarrow> strip a = a"
proof -
  assume "a \<in> set (split_args s)"
  then obtain p where "a = strip p"
    unfolding split_args_pieces by (auto split: if_splits)
  then show ?thesis by (simp add: strip_strip)
qed

subsection \<open>The rewrite of one call\<close>

text \<open>
  C2. With the tokenized argument list of a matched call: the call is returned unchanged
  when the list has 0 or 1 elements, and when it has exactly 2 elements and the second,
  trimmed, begins with \<open>{\<close> and ends with \<open>}\<close>. Otherwise the result is
  \<open>log.<level>(<first element>, { ... })\<close>, where each remaining element that matches the
  identifier grammar is a shorthand property and every other element becomes
  \<open>argN: <expression>\<close>, \<open>N\<close> its 1-based position among the remaining elements.
\<close>

theorem fix_logger_call_cases:
  "let parts = split_args (group_of m 2) in
   (length parts \<le> 1 \<longrightarrow> fix_logger_call m = group_of m 0) \<and>
   (length parts = 2 \<and> startswith (strip (parts ! 1)) ''{'' \<and> endswith (strip (parts ! 1)) ''}'' \<longrightarrow>
      fix_logger_call m = group_of m 0) \<and>
   (1 < length parts \<and>
    \<not> (length parts = 2 \<and> startswith (strip (parts ! 1)) ''{'' \<and> endswith (strip (parts ! 1)) ''}'') \<longrightarrow>
      fix_logger_call m =
        ''log.'' @ group_of m 1 @ ''('' @ parts ! 0 @ '', { '' @
        join '', '' (map (\<lambda>(n, a). folded_entry n a) (enumerate 1 (tl parts))) @ '' })'')"
proof -
  define parts where "parts = split_args (group_of m 2)"
  have s: "\<forall>a\<in>set (tl parts). strip a = a"
  proof
    fix a assume "a \<in> set (tl parts)"
    then have "a \<in> set parts" by (cases parts) auto
    then show "strip a = a" unfolding parts_def by (rule split_args_stripped)
  qed
  have "map (\<lambda>(n, a). folded_entry n (strip a)) (enumerate 1 (tl parts)) =
        map (\<lambda>(n, a). folded_entry n a) (enumerate 1 (tl parts))"
    using s by (auto simp: enumerate_eq_zip dest: set_zip_rightD)
  then have e: "metadata_entries 0 (drop 1 parts) =
           map (\<lambda>(n, a). folded_entry n a) (enumerate 1 (tl parts))"
    by (simp add: metadata_entries_folded drop_Suc)
  show ?thesis
    unfolding Let_def parts_def [symmetric]
    using e by (auto simp: fix_logger_call_def Let_def parts_def [symmetric])
qed

lemma boom_parts:
  "split_args (group_of (call_match ''error'' ''\"boom\"'') 2) = [''\"boom\"''] \<and>
   group_of (call_match ''error'' ''\"boom\"'') 0 = ''log.error(\"boom\")''"
  by code_simp

lemma slow_parts:
  "split_args (group_of (call_match ''warn'' ''\"slow\", { ms: 200 }'') 2) =
     [''\"slow\"'', ''{ ms: 200 }''] \<and>
   strip ''{ ms: 200 }'' = ''{ ms: 200 }'' \<and>
   startswith ''{ ms: 200 }'' ''{'' \<and> endswith ''{ ms: 200 }'' ''}'' \<and>
   group_of (call_match ''warn'' ''\"slow\", { ms: 200 }'') 0 = ''log.warn(\"slow\", { ms: 200 })''"
  by code_simp

lemma failed_parts:
  "split_args (group_of (call_match ''error'' failed_args) 2) =
     [[CHR 0x27] @ ''failed'' @ [CHR 0x27], ''err'', ''userId''] \<and>
   group_of (call_match ''error'' failed_args) (Suc 0) = ''error'' \<and>
   folded_entry (Suc 0) ''err'' = ''err'' \<and>
   folded_entry (Suc (Suc 0)) ''userId'' = ''userId''"
  by code_simp

theorem fix_logger_call_cases_witness:
  "fix_logger_call (call_match ''error'' ''\"boom\"'') = ''log.error(\"boom\")'' \<and>
   fix_logger_call (call_match ''warn'' ''\"slow\", { ms: 200 }'') = ''log.warn(\"slow\", { ms: 200 })'' \<and>
   fix_logger_call (call_match ''error'' failed_args) = failed_folded"
proof (intro conjI)
  show "fix_logger_call (call_match ''error'' ''\"boom\"'') = ''log.error(\"boom\")''"
    using fix_logger_call_cases [of "call_match ''error'' ''\"boom\"''"]
    by (simp add: Let_def boom_parts)
  show "fix_logger_call (call_match ''warn'' ''\"slow\", { ms: 200 }'') =
        ''log.warn(\"slow\", { ms: 200 })''"
    using fix_logger_call_cases [of "call_match ''warn'' ''\"slow\", { ms: 200 }''"]
    by (simp add: Let_def slow_parts)
  show "fix_logger_call (call_match ''error'' failed_args) = failed_folded"
    using fix_logger_call_cases [of "call_match ''error'' failed_args"]
    by (simp add: Let_def failed_parts failed_folded_def)
qed

subsection \<open>Fragments of a well-formed argument text\<close>

lemma lex_ok_step: "lex_ok l \<Longrightarrow> lex_ok (lex_step l c)"
  by (cases l; cases "fst l") (auto simp: lex_ok_def)

lemma lex_step_space: "lex_ok l \<Longrightarrow> isspace c \<Longrightarrow> lex_step l c = l"
  by (cases l; cases "fst l") (auto simp: lex_ok_def dest: isspace_plain)

lemma lex_ok_clean: "lex_ok lex_clean"
  by (simp add: lex_ok_def lex_clean_def)

lemma balanced_drop_leading:
  "\<forall>c\<in>set w. isspace c \<Longrightarrow> lex_ok l \<Longrightarrow> balanced_from l (w @ s) \<Longrightarrow> balanced_from l s"
  by (induction w) (auto simp: lex_step_space)

lemma balanced_blank: "\<forall>c\<in>set w. isspace c \<Longrightarrow> lex_ok l \<Longrightarrow> balanced_from l w \<Longrightarrow> l = lex_clean"
  by (induction w) (auto simp: lex_step_space)

lemma balanced_drop_trailing:
  "\<forall>c\<in>set w. isspace c \<Longrightarrow> lex_ok l \<Longrightarrow> balanced_from l (s @ w) \<Longrightarrow> balanced_from l s"
proof (induction s arbitrary: l)
  case Nil
  then show ?case using balanced_blank [of w l] by simp
next
  case (Cons c cs)
  then show ?case using lex_ok_step [of l c] by auto
qed

lemma well_formed_strip:
  assumes "well_formed p"
  shows "well_formed (strip p)"
proof -
  obtain w1 w2 where d: "p = w1 @ strip p @ w2" "\<forall>c\<in>set w1. isspace c" "\<forall>c\<in>set w2. isspace c"
    using strip_decomp by blast
  from assms d(1) have "balanced_from lex_clean (w1 @ strip p @ w2)" by (simp add: well_formed_def)
  then have "balanced_from lex_clean (strip p @ w2)"
    using balanced_drop_leading [OF d(2) lex_ok_clean] by blast
  then have "balanced_from lex_clean (strip p)"
    using balanced_drop_trailing [OF d(3) lex_ok_clean] by blast
  then show ?thesis by (simp add: well_formed_def)
qed

lemma pieces_well_formed:
  "(\<And>t. balanced_from l t \<Longrightarrow> well_formed (cur @ t)) \<Longrightarrow> balanced_from l s \<Longrightarrow>
   p \<in> set (pieces l cur s) \<Longrightarrow> well_formed p"
proof (induction s arbitrary: l cur)
  case Nil
  from Nil.prems(3) have e: "p = cur" by simp
  from Nil.prems(2) have "well_formed (cur @ [])" by (rule Nil.prems(1))
  with e show ?case by simp
next
  case (Cons c cs)
  show ?case
  proof (cases "top_comma l c")
    case True
    then have l: "l = lex_clean" and c: "c = CHR '',''" by (simp_all add: top_comma_def)
    have s: "lex_step lex_clean CHR '','' = lex_clean" by (simp add: lex_clean_def is_quote_def)
    from Cons.prems(3) True consider "p = cur" | "p \<in> set (pieces l [] cs)" by auto
    then show ?thesis
    proof cases
      case 1
      have "balanced_from l []" by (simp add: l)
      then have "well_formed (cur @ [])" by (rule Cons.prems(1))
      with 1 show ?thesis by simp
    next
      case 2
      have b: "balanced_from l cs" using Cons.prems(2) by (simp add: l c s)
      have i: "\<And>t. balanced_from l t \<Longrightarrow> well_formed ([] @ t)" by (simp add: l well_formed_def)
      from Cons.IH [OF i b 2] show ?thesis .
    qed
  next
    case False
    with Cons.prems(3) have m: "p \<in> set (pieces (lex_step l c) (cur @ [c]) cs)" by simp
    from Cons.prems(2) have n: "nonneg (lex_step l c)" and b: "balanced_from (lex_step l c) cs"
      by simp_all
    have i: "\<And>t. balanced_from (lex_step l c) t \<Longrightarrow> well_formed ((cur @ [c]) @ t)"
    proof -
      fix t assume "balanced_from (lex_step l c) t"
      with n have "balanced_from l (c # t)" by simp
      then have "well_formed (cur @ c # t)" by (rule Cons.prems(1))
      then show "well_formed ((cur @ [c]) @ t)" by simp
    qed
    from Cons.IH [OF i b m] show ?thesis .
  qed
qed

lemma split_args_from_pieces: "a \<in> set (split_args s) \<Longrightarrow> \<exists>p\<in>set (pieces lex_clean [] s). a = strip p"
proof -
  assume a: "a \<in> set (split_args s)"
  have n: "pieces lex_clean [] s \<noteq> []" by (rule pieces_nonempty)
  from a consider "a \<in> strip ` set (butlast (pieces lex_clean [] s))" | "a = strip (tail_piece s)"
    unfolding split_args_pieces by (auto split: if_splits)
  then show ?thesis
  proof cases
    case 1
    then show ?thesis by (auto dest: in_set_butlastD)
  next
    case 2
    then show ?thesis using n by (auto simp: tail_piece_def)
  qed
qed

lemma split_args_well_formed:
  assumes w: "well_formed s" and f: "f \<in> set (split_args s)"
  shows "well_formed f"
proof -
  from f obtain p where p: "p \<in> set (pieces lex_clean [] s)" "f = strip p"
    using split_args_from_pieces by blast
  have "well_formed p"
  proof (rule pieces_well_formed [OF _ _ p(1)])
    show "\<And>t. balanced_from lex_clean t \<Longrightarrow> well_formed ([] @ t)" by (simp add: well_formed_def)
    show "balanced_from lex_clean s" using w by (simp add: well_formed_def)
  qed
  then show "well_formed f" unfolding p(2) by (rule well_formed_strip)
qed

text \<open>
  C4, as amended. The number of fragments is the number of top-level commas, plus one when
  the text after the last top-level comma is not blank (for every argument text); and for
  a well-formed argument text every fragment is well formed: it has no closing paren or
  brace without its opening one and leaves no quote, paren or brace open.
\<close>

theorem split_args_count_balance:
  "length (split_args s) = top_commas lex_clean s + (if strip (tail_piece s) = [] then 0 else 1) \<and>
   (well_formed s \<longrightarrow> (\<forall>f\<in>set (split_args s). well_formed f))"
proof (intro conjI impI ballI)
  show "length (split_args s) = top_commas lex_clean s + (if strip (tail_piece s) = [] then 0 else 1)"
    by (simp add: split_args_pieces length_pieces)
next
  fix f assume "well_formed s" and "f \<in> set (split_args s)"
  then show "well_formed f" by (rule split_args_well_formed)
qed

lemma nested_args_facts:
  "well_formed nested_args \<and>
   split_args nested_args = [''f(x, y)'', ''{a: 1, b}'', ''\"c, d\"''] \<and>
   top_commas lex_clean nested_args = 3 \<and> strip (tail_piece nested_args) = []"
  by code_simp

theorem split_args_count_balance_witness:
  "well_formed nested_args \<and> length (split_args nested_args) = 3 \<and>
   top_commas lex_clean nested_args = 3 \<and>
   well_formed ''f(x, y)'' \<and> well_formed ''{a: 1, b}'' \<and> well_formed ''\"c, d\"''"
  using split_args_count_balance [of nested_args] nested_args_facts by simp

text \<open>
  C4 as stated fails: the empty argument text is well formed and has no fragment, not one;
  and \<open>a, b,\<close> has two top-level commas and two fragments, not three.
\<close>

theorem split_args_count_counterexample:
  "well_formed [] \<and> length (split_args []) \<noteq> top_commas lex_clean [] + 1 \<and>
   well_formed ''a, b,'' \<and> split_args ''a, b,'' = [''a'', ''b''] \<and> top_commas lex_clean ''a, b,'' = 2"
  by code_simp

subsection \<open>Running a recipe again\<close>

lemma lex_run_simps [simp]:
  "lex_run l [] = l" "lex_run l (c # cs) = lex_run (lex_step l c) cs"
  by (simp_all add: lex_run_def)



































end
